theory Spec2Isabelle
  imports Main "HOL-Library.Word"
begin

section \<open>Identifiers and panics\<close>

text \<open>
  \<open>EntityID\<close> and \<open>ClientID\<close> are Go strings. The nil id is the empty string
  (\<open>EntityID.IsNil\<close>).
\<close>

type_synonym EntityID = string
type_synonym ClientID = string

text \<open>
  A Go panic carries an arbitrary value. Three kinds are told apart: the value
  \<open>gwlog.Panicf\<close> panics with (the logging package is not among the sources, so
  the value is kept abstract and only its formatted message is recorded), a value that
  implements the \<open>error\<close> interface (run-time errors, \<open>errors.New\<close>), and any
  other value (a string as in \<open>panic("...")\<close>).
\<close>

datatype panic_value = LogPanic string | ErrorValue string | OtherValue string

definition IsNil :: "EntityID \<Rightarrow> bool" where
  "IsNil eid = (eid = [])"

section \<open>Type registry\<close>

text \<open>
  \<open>strings.ToLower\<close> on the ASCII letters; every other byte is left as it is.
\<close>

definition lower_char :: "char \<Rightarrow> char" where
  "lower_char c =
     (case map_of (zip ''ABCDEFGHIJKLMNOPQRSTUVWXYZ'' ''abcdefghijklmnopqrstuvwxyz'') c of
        Some l \<Rightarrow> l
      | None \<Rightarrow> c)"

definition ToLower :: "string \<Rightarrow> string" where
  "ToLower s = map lower_char s"

text \<open>
  The descriptor of a registered type. \<open>entityType\<close> is the name of the reflected Go
  type and \<open>rpcDescs\<close> the methods handed to \<open>rpcDescs.visit\<close>.
\<close>

record EntityTypeDesc =
  entityType :: string
  rpcDescs :: "string list"
  allClientAttrs :: "string set"
  clientAttrs :: "string set"
  persistentAttrs :: "string set"

definition VALID_ATTR_DEFS :: "string set" where
  "VALID_ATTR_DEFS = {ToLower ''Client'', ToLower ''AllClients'', ToLower ''Persistent''}"

text \<open>
  The inner loop of \<open>DefineAttrs\<close> over the tags of one attribute. The flags are
  \<open>(isAllClient, isClient, isPersistent)\<close>; an invalid tag panics before any set is
  touched for this attribute.
\<close>

fun scanDefs :: "string \<Rightarrow> string list \<Rightarrow> bool \<times> bool \<times> bool \<Rightarrow> panic_value + bool \<times> bool \<times> bool" where
  "scanDefs attr [] flags = Inr flags"
| "scanDefs attr (d # defs) (isAllClient, isClient, isPersistent) =
     (if ToLower d \<notin> VALID_ATTR_DEFS
      then Inl (LogPanic (''attribute '' @ attr @ '': invalid property: '' @ ToLower d))
      else if ToLower d = ''allclients'' then scanDefs attr defs (True, True, isPersistent)
      else if ToLower d = ''client'' then scanDefs attr defs (isAllClient, True, isPersistent)
      else if ToLower d = ''persistent'' then scanDefs attr defs (isAllClient, isClient, True)
      else scanDefs attr defs (isAllClient, isClient, isPersistent))"

definition addAttr :: "bool \<times> bool \<times> bool \<Rightarrow> string \<Rightarrow> EntityTypeDesc \<Rightarrow> EntityTypeDesc" where
  "addAttr flags attr desc =
     (case flags of (isAllClient, isClient, isPersistent) \<Rightarrow>
        desc\<lparr>allClientAttrs := (if isAllClient then insert attr (allClientAttrs desc) else allClientAttrs desc),
             clientAttrs := (if isClient then insert attr (clientAttrs desc) else clientAttrs desc),
             persistentAttrs := (if isPersistent then insert attr (persistentAttrs desc) else persistentAttrs desc)\<rparr>)"

text \<open>
  \<open>DefineAttrs\<close>. The tag map is given as the list of its entries in the order the
  \<open>range\<close> visits them. The descriptor is changed in place, so the changes made
  before a panic stay: the result is the panic, if any, and the descriptor as left.
\<close>

fun DefineAttrs :: "EntityTypeDesc \<Rightarrow> (string \<times> string list) list \<Rightarrow> panic_value option \<times> EntityTypeDesc" where
  "DefineAttrs desc [] = (None, desc)"
| "DefineAttrs desc ((attr, defs) # rest) =
     (case scanDefs attr defs (False, False, False) of
        Inl p \<Rightarrow> (Some p, desc)
      | Inr flags \<Rightarrow> DefineAttrs (addAttr flags attr desc) rest)"

text \<open>
  \<open>RegisterEntity\<close>: the prototype is given by the name of its Go type and its method
  names. A duplicate type name panics and leaves the registry as it was.
\<close>

definition newEntityTypeDesc :: "string \<Rightarrow> string list \<Rightarrow> EntityTypeDesc" where
  "newEntityTypeDesc goType methods =
     \<lparr>entityType = goType, rpcDescs = methods,
      allClientAttrs = {}, clientAttrs = {}, persistentAttrs = {}\<rparr>"

definition RegisterEntity ::
  "(string \<rightharpoonup> EntityTypeDesc) \<Rightarrow> string \<Rightarrow> string \<Rightarrow> string list
     \<Rightarrow> (panic_value + EntityTypeDesc) \<times> (string \<rightharpoonup> EntityTypeDesc)" where
  "RegisterEntity registeredEntityTypes typeName goType methods =
     (case registeredEntityTypes typeName of
        Some _ \<Rightarrow> (Inl (LogPanic (''RegisterEntity: Entity type '' @ typeName @ '' already registered'')),
                   registeredEntityTypes)
      | None \<Rightarrow> (Inr (newEntityTypeDesc goType methods),
                 registeredEntityTypes(typeName \<mapsto> newEntityTypeDesc goType methods)))"

text \<open>
  A run of \<open>DefineAttrs\<close> calls on one descriptor; a call that panics leaves its
  partial changes and the next call goes on from there.
\<close>

fun DefineAttrsAll :: "EntityTypeDesc \<Rightarrow> (string \<times> string list) list list \<Rightarrow> EntityTypeDesc" where
  "DefineAttrsAll desc [] = desc"
| "DefineAttrsAll desc (attrDefs # calls) = DefineAttrsAll (snd (DefineAttrs desc attrDefs)) calls"

section \<open>Entity manager\<close>

record GameClient =
  clientid :: ClientID
  gateid :: "16 word"

text \<open>
  The fields of an entity that the entity manager reads. \<open>Kind\<close> is the space kind
  of a space entity (\<open>Space.Kind\<close>).
\<close>

record Entity =
  ID :: EntityID
  TypeName :: string
  client :: "GameClient option"
  Kind :: int

record EntityManager =
  entities :: "EntityID \<rightharpoonup> Entity"
  ownerOfClient :: "ClientID \<rightharpoonup> EntityID"
  registeredServices :: "string \<rightharpoonup> EntityID set"

definition newEntityManager :: EntityManager where
  "newEntityManager = \<lparr>entities = Map.empty, ownerOfClient = Map.empty, registeredServices = Map.empty\<rparr>"

definition put :: "EntityManager \<Rightarrow> Entity \<Rightarrow> EntityManager" where
  "put em entity = em\<lparr>entities := (entities em)(ID entity \<mapsto> entity)\<rparr>"

definition del :: "EntityManager \<Rightarrow> EntityID \<Rightarrow> EntityManager" where
  "del em entityID = em\<lparr>entities := (entities em)(entityID := None)\<rparr>"

definition get :: "EntityManager \<Rightarrow> EntityID \<Rightarrow> Entity option" where
  "get em eid = entities em eid"

definition onEntityLoseClient :: "EntityManager \<Rightarrow> ClientID \<Rightarrow> EntityManager" where
  "onEntityLoseClient em cid = em\<lparr>ownerOfClient := (ownerOfClient em)(cid := None)\<rparr>"

definition onEntityGetClient :: "EntityManager \<Rightarrow> EntityID \<Rightarrow> ClientID \<Rightarrow> EntityManager" where
  "onEntityGetClient em entityID cid = em\<lparr>ownerOfClient := (ownerOfClient em)(cid \<mapsto> entityID)\<rparr>"

subsection \<open>Service directory\<close>

definition onDeclareService :: "EntityManager \<Rightarrow> string \<Rightarrow> EntityID \<Rightarrow> EntityManager" where
  "onDeclareService em serviceName eid =
     (case registeredServices em serviceName of
        None \<Rightarrow> em\<lparr>registeredServices := (registeredServices em)(serviceName \<mapsto> insert eid {})\<rparr>
      | Some eids \<Rightarrow> em\<lparr>registeredServices := (registeredServices em)(serviceName \<mapsto> insert eid eids)\<rparr>)"

definition onUndeclareService :: "EntityManager \<Rightarrow> string \<Rightarrow> EntityID \<Rightarrow> EntityManager" where
  "onUndeclareService em serviceName eid =
     (case registeredServices em serviceName of
        Some eids \<Rightarrow> em\<lparr>registeredServices := (registeredServices em)(serviceName \<mapsto> eids - {eid})\<rparr>
      | None \<Rightarrow> em)"

definition GetServiceProviders :: "EntityManager \<Rightarrow> string \<Rightarrow> EntityID set" where
  "GetServiceProviders em serviceName =
     (case registeredServices em serviceName of None \<Rightarrow> {} | Some eids \<Rightarrow> eids)"

datatype service_event = Declare string EntityID | Undeclare string EntityID

fun onServiceEvent :: "EntityManager \<Rightarrow> service_event \<Rightarrow> EntityManager" where
  "onServiceEvent em (Declare serviceName eid) = onDeclareService em serviceName eid"
| "onServiceEvent em (Undeclare serviceName eid) = onUndeclareService em serviceName eid"

definition onServiceEvents :: "EntityManager \<Rightarrow> service_event list \<Rightarrow> EntityManager" where
  "onServiceEvents em evs = foldl onServiceEvent em evs"

text \<open>
  The loop of \<open>chooseServiceProvider\<close> over the provider set, visited in the order
  \<open>ord\<close>, with the counter \<open>r\<close>. \<open>None\<close> means that the loop ran to its end, where
  the source returns the empty id.
\<close>

fun chooseLoop :: "int \<Rightarrow> EntityID list \<Rightarrow> EntityID option" where
  "chooseLoop r [] = None"
| "chooseLoop r (eid # rest) = (if r = 0 then Some eid else chooseLoop (r - 1) rest)"

text \<open>
  \<open>chooseServiceProvider\<close>. \<open>rnd\<close> is the number \<open>rand.Intn(len(eids))\<close> returns
  and \<open>ord\<close> the order in which the \<open>range\<close> visits the set. \<open>rand.Intn\<close> panics
  with a string when its argument is not positive.
\<close>

definition chooseServiceProvider :: "EntityManager \<Rightarrow> string \<Rightarrow> int \<Rightarrow> EntityID list \<Rightarrow> panic_value + EntityID" where
  "chooseServiceProvider em serviceName rnd ord =
     (case registeredServices em serviceName of
        None \<Rightarrow> Inl (LogPanic (''service not found: '' @ serviceName))
      | Some eids \<Rightarrow>
          if card eids = 0 then Inl (OtherValue ''invalid argument to Intn'')
          else (case chooseLoop rnd ord of Some eid \<Rightarrow> Inr eid | None \<Rightarrow> Inr []))"

section \<open>Lifecycle\<close>

text \<open>
  \<open>createCause\<close> is an integer type in the source with the three constants below; no
  other value is ever passed.
\<close>

datatype createCause = ccCreate | ccMigrate | ccRestore

text \<open>
  An attribute map \<open>map[string]interface{}\<close> is a list of its entries; a \<open>nil\<close> map is
  \<open>None\<close>. Of the values only the integers are told apart from the rest.
\<close>

datatype attr_value = IntAttr int | OtherAttr string

type_synonym attrs = "(string \<times> attr_value) list"

text \<open>Coordinates are carried through unchanged and never computed with.\<close>

type_synonym Position = "int \<times> int \<times> int"

type_synonym byte = "8 word"

text \<open>
  A \<open>*Space\<close> argument: the id of the space entity and what \<open>IsDestroyed()\<close> answers
  when it is asked.
\<close>

record Space =
  SpaceEntityID :: EntityID
  IsDestroyed :: bool

text \<open>
  What the entity core does to its collaborators (entity hooks, dispatcher sends, the
  space subsystem, the task queue), in the order it does it. \<open>Call_createEntity\<close>
  records an entry into \<open>createEntity\<close> with the type name, the entity id and the cause
  it was called with.
\<close>

datatype event =
    Call_createEntity string EntityID createCause
  | LoadPersistentData EntityID attrs
  | LoadMigrateData EntityID attrs
  | Save EntityID
  | restoreTimers EntityID "byte list"
  | setupSaveTimer EntityID
  | SendNotifyCreateEntity EntityID
  | SendNotifyDestroyEntity EntityID
  | Call_SetClient EntityID "GameClient option"
  | OnCreated EntityID
  | OnMigrateIn EntityID
  | OnRestored EntityID
  | enter EntityID EntityID Position bool
  | Post_EnterSpace EntityID EntityID Position
  | notifyClientDisconnected EntityID
  | storage_Load string EntityID
  | Call_Destroy EntityID

text \<open>
  The process-wide state: the two globals of the package, the events so far and the
  number of entity ids generated so far.
\<close>

record world =
  registeredEntityTypes :: "string \<rightharpoonup> EntityTypeDesc"
  entityManager :: EntityManager
  trace :: "event list"
  generated :: nat

text \<open>
  The snapshot of one entity (\<open>entityFreezeData\<close>, declared outside the sources; its
  fields are the ones \<open>RestoreFreezedEntities\<close> reads) and the snapshot of the whole
  process. \<open>Entities\<close> and \<open>Services\<close> are Go maps.
\<close>

record clientData =
  ClientID :: ClientID
  GateID :: "16 word"

record enteringSpaceRequest =
  ESR_SpaceID :: EntityID
  EnterPos :: Position

record entityFreezeData =
  Type :: string
  Attrs :: "attrs option"
  Pos :: Position
  Client :: "clientData option"
  SpaceID :: EntityID
  TimerData :: "byte list option"
  ESR :: "enteringSpaceRequest option"

record FreezeData =
  Entities :: "EntityID \<rightharpoonup> entityFreezeData"
  Services :: "string \<rightharpoonup> EntityID list"

text \<open>
  The collaborators whose code is not part of the entity core are parameters:
  \<open>GenEntityID\<close> gives the \<open>n\<close>-th generated id, \<open>IsPersistent\<close> is the answer of
  \<open>entity.I.IsPersistent()\<close> for a type name, \<open>typeconv_Int\<close> is \<open>typeconv.Int\<close>
  applied to the looked-up attribute (\<open>None\<close> for a missing key, which Go reads as
  \<open>nil\<close>), \<open>logPanicIsError\<close> says whether the value \<open>gwlog.Panicf\<close> panics with
  implements \<open>error\<close>, \<open>GetFreezeData\<close> is \<open>Entity.GetFreezeData\<close> and \<open>ToList\<close> is
  \<open>EntityIDSet.ToList\<close>, which lists a set in an order of its choice.
\<close>

record env =
  GenEntityID :: "nat \<Rightarrow> EntityID"
  IsPersistent :: "string \<Rightarrow> bool"
  typeconv_Int :: "attr_value option \<Rightarrow> panic_value + 64 word"
  logPanicIsError :: bool
  GetFreezeData :: "Entity \<Rightarrow> entityFreezeData"
  ToList :: "EntityID set \<Rightarrow> EntityID list"

definition emit :: "event \<Rightarrow> world \<Rightarrow> world" where
  "emit ev w = w\<lparr>trace := trace w @ [ev]\<rparr>"

text \<open>
  Modelled from the spec: \<open>gwlog.Panicf\<close> is not among the sources. The specification
  calls every site that uses it fatal, so it panics, with the formatted message.
\<close>

definition gwlog_Panicf :: "string \<Rightarrow> panic_value + unit" where
  "gwlog_Panicf msg = Inl (LogPanic msg)"

text \<open>
  An assignment to the \<open>client\<close> field of the entity that the table holds under
  \<open>eid\<close>.
\<close>

definition setClientField :: "EntityManager \<Rightarrow> EntityID \<Rightarrow> GameClient option \<Rightarrow> EntityManager" where
  "setClientField em eid cl =
     (case entities em eid of
        None \<Rightarrow> em
      | Some entity \<Rightarrow> em\<lparr>entities := (entities em)(eid \<mapsto> entity\<lparr>client := cl\<rparr>)\<rparr>)"

text \<open>
  The quiet assignment of \<open>createEntity\<close> for the causes Migrate and Restore:
  \<open>entity.client = client\<close>, then \<open>onEntityGetClient\<close>.
\<close>

definition assignClient :: "world \<Rightarrow> EntityID \<Rightarrow> GameClient \<Rightarrow> world" where
  "assignClient w eid cl =
     w\<lparr>entityManager :=
         onEntityGetClient (setClientField (entityManager w) eid (Some cl)) eid (clientid cl)\<rparr>"

text \<open>
  Modelled from the spec: \<open>Entity.SetClient\<close> is not among the sources. The bind
  protocol tears down the prior binding of the entity first (\<open>onEntityLoseClient\<close> for
  its old client), assigns the new client, and records the owner through
  \<open>onEntityGetClient\<close> when the new client is not \<open>nil\<close>.
\<close>

definition rebind :: "EntityManager \<Rightarrow> EntityID \<Rightarrow> GameClient option \<Rightarrow> EntityManager" where
  "rebind em eid cl =
     (case entities em eid of
        None \<Rightarrow> em
      | Some entity \<Rightarrow>
          (case cl of
             Some c \<Rightarrow>
               onEntityGetClient
                 (setClientField
                    (case client entity of Some old \<Rightarrow> onEntityLoseClient em (clientid old) | None \<Rightarrow> em)
                    eid cl)
                 eid (clientid c)
           | None \<Rightarrow>
               setClientField
                 (case client entity of Some old \<Rightarrow> onEntityLoseClient em (clientid old) | None \<Rightarrow> em)
                 eid cl))"

definition SetClient :: "world \<Rightarrow> EntityID \<Rightarrow> GameClient option \<Rightarrow> world" where
  "SetClient w eid cl =
     (emit (Call_SetClient eid cl) w)\<lparr>entityManager := rebind (entityManager w) eid cl\<rparr>"

text \<open>The steps of \<open>createEntity\<close> after the entity is in the table, in source order.\<close>

definition loadData :: "EntityID \<Rightarrow> attrs option \<Rightarrow> createCause \<Rightarrow> world \<Rightarrow> world" where
  "loadData eid data cause w =
     (case data of
        Some d \<Rightarrow> if cause = ccCreate then emit (LoadPersistentData eid d) w
                  else emit (LoadMigrateData eid d) w
      | None \<Rightarrow> emit (Save eid) w)"

definition loadTimers :: "EntityID \<Rightarrow> byte list option \<Rightarrow> world \<Rightarrow> world" where
  "loadTimers eid timerData w =
     (case timerData of Some td \<Rightarrow> emit (restoreTimers eid td) w | None \<Rightarrow> w)"

definition startSaveTimer :: "env \<Rightarrow> string \<Rightarrow> EntityID \<Rightarrow> world \<Rightarrow> world" where
  "startSaveTimer e typeName eid w =
     (if IsPersistent e typeName then emit (setupSaveTimer eid) w else w)"

definition notifyCreate :: "EntityID \<Rightarrow> createCause \<Rightarrow> world \<Rightarrow> world" where
  "notifyCreate eid cause w =
     (if cause = ccCreate \<or> cause = ccRestore then emit (SendNotifyCreateEntity eid) w else w)"

definition bindClient :: "EntityID \<Rightarrow> GameClient option \<Rightarrow> createCause \<Rightarrow> world \<Rightarrow> world" where
  "bindClient eid cl cause w =
     (case cl of
        Some c \<Rightarrow> if cause = ccCreate then SetClient w eid (Some c) else assignClient w eid c
      | None \<Rightarrow> w)"

definition runCallback :: "EntityID \<Rightarrow> createCause \<Rightarrow> world \<Rightarrow> world" where
  "runCallback eid cause w =
     (if cause = ccCreate then emit (OnCreated eid) w
      else if cause = ccMigrate then emit (OnMigrateIn eid) w
      else if cause = ccRestore then emit (OnRestored eid) w
      else w)"

definition enterSpace :: "EntityID \<Rightarrow> Space option \<Rightarrow> Position \<Rightarrow> createCause \<Rightarrow> world \<Rightarrow> world" where
  "enterSpace eid space pos cause w =
     (case space of
        Some sp \<Rightarrow> emit (enter (SpaceEntityID sp) eid pos (cause = ccRestore)) w
      | None \<Rightarrow> w)"

text \<open>
  The entity as \<open>reflect.New\<close> and \<open>entity.init\<close> leave it: the id and the type name
  set, no client, every other field zero. (Its \<open>Space\<close> pointer is set to the nil
  space; the entity manager never reads it.)
\<close>

definition newEntity :: "string \<Rightarrow> EntityID \<Rightarrow> Entity" where
  "newEntity typeName eid = \<lparr>ID = eid, TypeName = typeName, client = None, Kind = 0\<rparr>"

text \<open>
  \<open>createEntity\<close>. An unknown type name panics before anything else is done. The
  hooks of the entity and the sends are recorded as events and are taken to return.
\<close>

definition createEntity ::
  "env \<Rightarrow> world \<Rightarrow> string \<Rightarrow> Space option \<Rightarrow> Position \<Rightarrow> EntityID \<Rightarrow> attrs option
     \<Rightarrow> byte list option \<Rightarrow> GameClient option \<Rightarrow> createCause \<Rightarrow> (panic_value + EntityID) \<times> world" where
  "createEntity e w0 typeName space pos entityID data timerData cl cause =
     (let w = emit (Call_createEntity typeName entityID cause) w0 in
      case registeredEntityTypes w typeName of
        None \<Rightarrow> (Inl (LogPanic (''unknown entity type: '' @ typeName)), w)
      | Some entityTypeDesc \<Rightarrow>
          let eid = (if entityID = [] then GenEntityID e (generated w) else entityID);
              w1 = (if entityID = [] then w\<lparr>generated := Suc (generated w)\<rparr> else w);
              w2 = w1\<lparr>entityManager := put (entityManager w1) (newEntity typeName eid)\<rparr>;
              w3 = loadData eid data cause w2;
              w4 = loadTimers eid timerData w3;
              w5 = startSaveTimer e typeName eid w4;
              w6 = notifyCreate eid cause w5;
              w7 = bindClient eid cl cause w6;
              w8 = runCallback eid cause w7;
              w9 = enterSpace eid space pos cause w8
          in (Inr eid, w9))"

definition CreateEntityLocally :: "env \<Rightarrow> world \<Rightarrow> string \<Rightarrow> attrs option \<Rightarrow> GameClient option \<Rightarrow> (panic_value + EntityID) \<times> world" where
  "CreateEntityLocally e w typeName data cl =
     createEntity e w typeName None (0, 0, 0) [] data None cl ccCreate"

text \<open>The events that a step adds to the trace of \<open>w\<close> on the way to \<open>w'\<close>.\<close>

definition newEvents :: "world \<Rightarrow> world \<Rightarrow> event list" where
  "newEvents w w' = drop (length (trace w)) (trace w')"

text \<open>The three ways in which \<open>createEntity\<close> gives a new entity its state.\<close>

fun isMaterialize :: "event \<Rightarrow> bool" where
  "isMaterialize (LoadPersistentData eid d) = True"
| "isMaterialize (LoadMigrateData eid d) = True"
| "isMaterialize (Save eid) = True"
| "isMaterialize ev = False"

section \<open>Loading an entity\<close>

text \<open>
  What the storage hands to the completion callback as \<open>data interface{}\<close>: \<open>nil\<close>,
  an attribute map (possibly a \<open>nil\<close> map), or a value of another type.
\<close>

datatype storage_data = NilData | MapData "attrs option" | OtherData

text \<open>\<open>loadEntityLocally\<close> hands the request to the storage; the callback runs later.\<close>

definition loadEntityLocally :: "world \<Rightarrow> string \<Rightarrow> EntityID \<Rightarrow> world" where
  "loadEntityLocally w typeName entityID = emit (storage_Load typeName entityID) w"

text \<open>
  The completion callback of \<open>loadEntityLocally\<close>, called with \<open>data\<close> and \<open>err\<close>
  (\<open>None\<close> for \<open>nil\<close>). The statement after \<open>gwlog.Panicf\<close> is kept where the source
  has it. The type assertion on \<open>data\<close> panics with a run-time error unless \<open>data\<close> is
  an attribute map.
\<close>

definition loadCallback ::
  "env \<Rightarrow> world \<Rightarrow> string \<Rightarrow> EntityID \<Rightarrow> Space option \<Rightarrow> Position \<Rightarrow> storage_data \<Rightarrow> string option
     \<Rightarrow> (panic_value + unit) \<times> world" where
  "loadCallback e w typeName entityID space pos data err =
     (case (case err of
              Some msg \<Rightarrow>
                (case gwlog_Panicf (''load entity '' @ typeName @ ''.'' @ entityID @ '' failed: '' @ msg) of
                   Inl p \<Rightarrow> (Inl p, w)
                 | Inr u \<Rightarrow> (Inr u, emit (SendNotifyDestroyEntity entityID) w))
            | None \<Rightarrow> (Inr (), w)) of
        (Inl p, w1) \<Rightarrow> (Inl p, w1)
      | (Inr u, w1) \<Rightarrow>
          if (case space of Some sp \<Rightarrow> IsDestroyed sp | None \<Rightarrow> False)
          then (Inr (), emit (SendNotifyDestroyEntity entityID) w1)
          else (case data of
                  MapData d \<Rightarrow>
                    (case createEntity e w1 typeName space pos entityID d None None ccCreate of
                       (Inl p, w2) \<Rightarrow> (Inl p, w2)
                     | (Inr eid, w2) \<Rightarrow> (Inr (), w2))
                | NilData \<Rightarrow>
                    (Inl (ErrorValue ''interface conversion: interface {} is nil, not map[string]interface {}''), w1)
                | OtherData \<Rightarrow>
                    (Inl (ErrorValue ''interface conversion: interface {} is not map[string]interface {}''), w1)))"

section \<open>Freeze and restore\<close>

text \<open>
  Modelled from the spec: the constants \<open>SPACE_ENTITY_TYPE\<close> and
  \<open>SPACE_KIND_ATTR_KEY\<close> and the methods \<open>Entity.IsSpaceEntity\<close> and \<open>Space.IsNil\<close> are
  declared outside the sources. A space is an entity of the type \<open>SPACE_ENTITY_TYPE\<close>,
  and the nil space is the space whose kind is 0.
\<close>

definition SPACE_ENTITY_TYPE :: string where
  "SPACE_ENTITY_TYPE = ''__space__''"

definition SPACE_KIND_ATTR_KEY :: string where
  "SPACE_KIND_ATTR_KEY = ''_K''"

definition IsSpaceEntity :: "Entity \<Rightarrow> bool" where
  "IsSpaceEntity entity = (TypeName entity = SPACE_ENTITY_TYPE)"

definition IsNilSpace :: "Entity \<Rightarrow> bool" where
  "IsNilSpace entity = (Kind entity = 0)"

text \<open>
  The first loop of \<open>Freeze\<close> over the entity table, visited in the order \<open>ord\<close> of
  its keys, with the snapshots so far and the flag \<open>foundNilSpace\<close>. The early return
  is \<open>Inl\<close> with the message of the error.
\<close>

fun freezeEntities ::
  "env \<Rightarrow> EntityManager \<Rightarrow> EntityID list \<Rightarrow> (EntityID \<rightharpoonup> entityFreezeData) \<Rightarrow> bool
     \<Rightarrow> string + (EntityID \<rightharpoonup> entityFreezeData) \<times> bool" where
  "freezeEntities e em [] entityFreezeInfos foundNilSpace = Inr (entityFreezeInfos, foundNilSpace)"
| "freezeEntities e em (key # rest) entityFreezeInfos foundNilSpace =
     (case entities em key of
        None \<Rightarrow> freezeEntities e em rest entityFreezeInfos foundNilSpace
      | Some entity \<Rightarrow>
          if IsSpaceEntity entity \<and> IsNilSpace entity
          then (if foundNilSpace then Inl ''found duplicate nil space''
                else freezeEntities e em rest
                       (entityFreezeInfos(ID entity \<mapsto> GetFreezeData e entity)) True)
          else freezeEntities e em rest
                 (entityFreezeInfos(ID entity \<mapsto> GetFreezeData e entity)) foundNilSpace)"

text \<open>
  \<open>Freeze\<close> returns the snapshot or the error, and the state, which it does not
  change. The second loop copies every provider set as a list.
\<close>

definition Freeze :: "env \<Rightarrow> world \<Rightarrow> 16 word \<Rightarrow> EntityID list \<Rightarrow> (string + FreezeData) \<times> world" where
  "Freeze e w gameid ord =
     (case freezeEntities e (entityManager w) ord Map.empty False of
        Inl err \<Rightarrow> (Inl err, w)
      | Inr (entityFreezeInfos, foundNilSpace) \<Rightarrow>
          if \<not> foundNilSpace then (Inl ''nil space not found'', w)
          else (Inr \<lparr>Entities = entityFreezeInfos,
                     Services = (\<lambda>serviceName.
                        map_option (ToList e) (registeredServices (entityManager w) serviceName))\<rparr>,
                w))"

text \<open>
  Modelled from the spec: \<open>spaceManager.getSpace\<close> is not among the sources. It
  resolves the id of a resident space, and gives \<open>nil\<close> for any other id.
\<close>

definition getSpace :: "world \<Rightarrow> EntityID \<Rightarrow> Space option" where
  "getSpace w spaceID =
     (case entities (entityManager w) spaceID of
        Some entity \<Rightarrow> if IsSpaceEntity entity
                       then Some \<lparr>SpaceEntityID = spaceID, IsDestroyed = False\<rparr> else None
      | None \<Rightarrow> None)"

definition MakeGameClient :: "ClientID \<Rightarrow> 16 word \<Rightarrow> GameClient" where
  "MakeGameClient cid gid = \<lparr>clientid = cid, gateid = gid\<rparr>"

text \<open>
  The \<open>spaceKind\<close> that the loop of \<open>restoreEntities\<close> computes for an entry: the
  converted kind attribute for a space, 0 for any other type. The conversion can panic.
\<close>

definition spaceKindOf :: "env \<Rightarrow> entityFreezeData \<Rightarrow> panic_value + 64 word" where
  "spaceKindOf e info =
     (if Type info = SPACE_ENTITY_TYPE
      then typeconv_Int e (case Attrs info of None \<Rightarrow> None
                           | Some attrs \<Rightarrow> map_of attrs SPACE_KIND_ATTR_KEY)
      else Inr 0)"

text \<open>
  The call of \<open>createEntity\<close> in the loop of \<open>restoreEntities\<close>: a space is
  recreated in no space, any other entity in the space that \<open>getSpace\<close> finds for its
  \<open>SpaceID\<close>; the client is rebuilt from the snapshot; the cause is \<open>ccRestore\<close>.
\<close>

definition recreate :: "env \<Rightarrow> EntityID \<Rightarrow> entityFreezeData \<Rightarrow> world \<Rightarrow> (panic_value + EntityID) \<times> world" where
  "recreate e eid info w =
     createEntity e w (Type info)
       (if Type info \<noteq> SPACE_ENTITY_TYPE then getSpace w (SpaceID info) else None)
       (Pos info) eid (Attrs info) (TimerData info)
       (case Client info of None \<Rightarrow> None
        | Some c \<Rightarrow> Some (MakeGameClient (ClientID c) (GateID c)))
       ccRestore"

text \<open>The deferred \<open>EnterSpace\<close> that is posted when the snapshot records one.\<close>

definition postEnterSpace :: "EntityID \<Rightarrow> entityFreezeData \<Rightarrow> world \<Rightarrow> world" where
  "postEnterSpace eid info w =
     (case ESR info of
        Some esr \<Rightarrow> emit (Post_EnterSpace eid (ESR_SpaceID esr) (EnterPos esr)) w
      | None \<Rightarrow> w)"

text \<open>
  The body of the loop of \<open>restoreEntities\<close> for one entry of the snapshot. The result
  is the panic that ended it, if any.
\<close>

definition restoreEntity ::
  "env \<Rightarrow> (string \<Rightarrow> 64 word \<Rightarrow> bool) \<Rightarrow> EntityID \<Rightarrow> entityFreezeData \<Rightarrow> world
     \<Rightarrow> panic_value option \<times> world" where
  "restoreEntity e flt eid info w =
     (case spaceKindOf e info of
        Inl p \<Rightarrow> (Some p, w)
      | Inr spaceKind \<Rightarrow>
          if flt (Type info) spaceKind
          then (case recreate e eid info w of
                  (Inl p, w') \<Rightarrow> (Some p, w')
                | (Inr created, w') \<Rightarrow> (None, postEnterSpace eid info w'))
          else (None, w))"

text \<open>
  \<open>restoreEntities\<close>: one pass over the entities of the snapshot, visited in the order
  \<open>ord\<close> of their ids.
\<close>

fun restoreEntities ::
  "env \<Rightarrow> (string \<Rightarrow> 64 word \<Rightarrow> bool) \<Rightarrow> FreezeData \<Rightarrow> EntityID list \<Rightarrow> world
     \<Rightarrow> panic_value option \<times> world" where
  "restoreEntities e flt freeze [] w = (None, w)"
| "restoreEntities e flt freeze (eid # rest) w =
     (case Entities freeze eid of
        None \<Rightarrow> restoreEntities e flt freeze rest w
      | Some info \<Rightarrow>
          (case restoreEntity e flt eid info w of
             (Some p, w') \<Rightarrow> (Some p, w')
           | (None, w') \<Rightarrow> restoreEntities e flt freeze rest w'))"

text \<open>The three filters, in the order of the three steps.\<close>

definition isNilSpaceEntry :: "string \<Rightarrow> 64 word \<Rightarrow> bool" where
  "isNilSpaceEntry typeName spaceKind = (typeName = SPACE_ENTITY_TYPE \<and> spaceKind = 0)"

definition isOtherSpaceEntry :: "string \<Rightarrow> 64 word \<Rightarrow> bool" where
  "isOtherSpaceEntry typeName spaceKind = (typeName = SPACE_ENTITY_TYPE \<and> spaceKind \<noteq> 0)"

definition isNonSpaceEntry :: "string \<Rightarrow> 64 word \<Rightarrow> bool" where
  "isNonSpaceEntry typeName spaceKind = (typeName \<noteq> SPACE_ENTITY_TYPE)"

text \<open>The last loop: every service of the snapshot gets the set of its listed ids.\<close>

fun restoreServices :: "FreezeData \<Rightarrow> string list \<Rightarrow> EntityManager \<Rightarrow> EntityManager" where
  "restoreServices freeze [] em = em"
| "restoreServices freeze (serviceName # rest) em =
     (case Services freeze serviceName of
        None \<Rightarrow> restoreServices freeze rest em
      | Some eids \<Rightarrow>
          restoreServices freeze rest
            (em\<lparr>registeredServices := (registeredServices em)(serviceName \<mapsto> set eids)\<rparr>))"

text \<open>
  The body of \<open>RestoreFreezedEntities\<close> under the deferred function. \<open>ord1\<close>,
  \<open>ord2\<close> and \<open>ord3\<close> are the orders in which the three passes visit the entities
  and \<open>svcOrd\<close> is the order of the services.
\<close>

definition restoreBody ::
  "env \<Rightarrow> FreezeData \<Rightarrow> EntityID list \<Rightarrow> EntityID list \<Rightarrow> EntityID list \<Rightarrow> string list \<Rightarrow> world
     \<Rightarrow> panic_value option \<times> world" where
  "restoreBody e freeze ord1 ord2 ord3 svcOrd w =
     (case restoreEntities e isNilSpaceEntry freeze ord1 w of
        (Some p, w1) \<Rightarrow> (Some p, w1)
      | (None, w1) \<Rightarrow>
          (case restoreEntities e isOtherSpaceEntry freeze ord2 w1 of
             (Some p, w2) \<Rightarrow> (Some p, w2)
           | (None, w2) \<Rightarrow>
               (case restoreEntities e isNonSpaceEntry freeze ord3 w2 of
                  (Some p, w3) \<Rightarrow> (Some p, w3)
                | (None, w3) \<Rightarrow>
                    (None, w3\<lparr>entityManager := restoreServices freeze svcOrd (entityManager w3)\<rparr>))))"

text \<open>
  Whether a panic value passes the type assertion \<open>_err.(error)\<close>, and its message.
\<close>

fun implementsError :: "env \<Rightarrow> panic_value \<Rightarrow> bool" where
  "implementsError e (ErrorValue msg) = True"
| "implementsError e (OtherValue msg) = False"
| "implementsError e (LogPanic msg) = logPanicIsError e"

fun panicMessage :: "panic_value \<Rightarrow> string" where
  "panicMessage (ErrorValue msg) = msg"
| "panicMessage (OtherValue msg) = msg"
| "panicMessage (LogPanic msg) = msg"

text \<open>
  \<open>RestoreFreezedEntities\<close>. The deferred function recovers the panic of the body and
  asserts that its value is an \<open>error\<close>: if it is, the function returns it wrapped; if
  it is not, the assertion itself panics, inside the deferred function, and this panic
  leaves \<open>RestoreFreezedEntities\<close>. The result is \<open>Inr None\<close> for a \<open>nil\<close> error,
  \<open>Inr (Some msg)\<close> for a returned error and \<open>Inl p\<close> for a panic that reaches the
  caller.
\<close>

definition RestoreFreezedEntities ::
  "env \<Rightarrow> FreezeData \<Rightarrow> EntityID list \<Rightarrow> EntityID list \<Rightarrow> EntityID list \<Rightarrow> string list \<Rightarrow> world
     \<Rightarrow> (panic_value + string option) \<times> world" where
  "RestoreFreezedEntities e freeze ord1 ord2 ord3 svcOrd w =
     (case restoreBody e freeze ord1 ord2 ord3 svcOrd w of
        (None, w') \<Rightarrow> (Inr None, w')
      | (Some p, w') \<Rightarrow>
          if implementsError e p
          then (Inr (Some (''panic during restore: '' @ panicMessage p)), w')
          else (Inl (ErrorValue ''interface conversion: interface {} is not error''), w'))"

text \<open>
  The keys, among those listed in \<open>ord\<close>, of the resident entities that are the nil
  space. When \<open>ord\<close> lists every key of the table once, its length is the number of
  resident nil spaces.
\<close>

definition residentNilSpaces :: "EntityManager \<Rightarrow> EntityID list \<Rightarrow> EntityID list" where
  "residentNilSpaces em ord =
     filter (\<lambda>key. case entities em key of
                     Some entity \<Rightarrow> IsSpaceEntity entity \<and> IsNilSpace entity
                   | None \<Rightarrow> False) ord"

text \<open>The snapshots that the first loop of \<open>Freeze\<close> collects when it runs to its end.\<close>

fun collected :: "env \<Rightarrow> EntityManager \<Rightarrow> EntityID list \<Rightarrow> (EntityID \<rightharpoonup> entityFreezeData)
    \<Rightarrow> (EntityID \<rightharpoonup> entityFreezeData)" where
  "collected e em [] infos = infos"
| "collected e em (key # rest) infos =
     (case entities em key of
        None \<Rightarrow> collected e em rest infos
      | Some entity \<Rightarrow> collected e em rest (infos(ID entity \<mapsto> GetFreezeData e entity)))"

text \<open>The calls of \<open>createEntity\<close> in a list of events, in order.\<close>

fun createCalls :: "event list \<Rightarrow> (string \<times> EntityID \<times> createCause) list" where
  "createCalls [] = []"
| "createCalls (Call_createEntity typeName eid cause # evs) = (typeName, eid, cause) # createCalls evs"
| "createCalls (ev # evs) = createCalls evs"

text \<open>
  Following the words of the specification: a phase recreates, with the cause Restore,
  the entities of the snapshot that its condition on the type name and the space kind
  selects, in the order in which the pass visits them.
\<close>

definition phaseCalls ::
  "env \<Rightarrow> (string \<Rightarrow> 64 word \<Rightarrow> bool) \<Rightarrow> FreezeData \<Rightarrow> EntityID list
     \<Rightarrow> (string \<times> EntityID \<times> createCause) list" where
  "phaseCalls e cond freeze ord =
     concat (map (\<lambda>eid. case Entities freeze eid of
                           None \<Rightarrow> []
                         | Some info \<Rightarrow>
                             (case spaceKindOf e info of
                                Inr spaceKind \<Rightarrow>
                                  if cond (Type info) spaceKind then [(Type info, eid, ccRestore)] else []
                              | Inl p \<Rightarrow> [])) ord)"

section \<open>Clients and gates\<close>

text \<open>
  Modelled from the spec: \<open>Entity.notifyClientDisconnected\<close> is not among the sources.
  The entity is told that its client is gone and its client field is cleared, so that
  the ownership index and the field agree again.
\<close>

definition deliverDisconnected :: "world \<Rightarrow> EntityID \<Rightarrow> world" where
  "deliverDisconnected w eid =
     (emit (notifyClientDisconnected eid) w)\<lparr>entityManager := setClientField (entityManager w) eid None\<rparr>"

text \<open>
  \<open>onClientDisconnected\<close>. A client id that the index does not hold reads as the nil
  id. The owner is looked up and used without a check: when the table does not hold it,
  the call on the \<open>nil\<close> entity faults.
\<close>

definition onClientDisconnected :: "world \<Rightarrow> ClientID \<Rightarrow> (panic_value + unit) \<times> world" where
  "onClientDisconnected w cid =
     (let eid = (case ownerOfClient (entityManager w) cid of None \<Rightarrow> [] | Some owner \<Rightarrow> owner) in
      if \<not> IsNil eid
      then (case get (onEntityLoseClient (entityManager w) cid) eid of
              None \<Rightarrow> (Inl (ErrorValue ''invalid memory address or nil pointer dereference''),
                        w\<lparr>entityManager := onEntityLoseClient (entityManager w) cid\<rparr>)
            | Some owner \<Rightarrow>
                (Inr (), deliverDisconnected (w\<lparr>entityManager := onEntityLoseClient (entityManager w) cid\<rparr>) eid))
      else (Inr (), w))"

text \<open>
  \<open>onGateDisconnected\<close>: the sweep over the entity table, in the order \<open>ord\<close> of its
  keys.
\<close>

fun onGateDisconnected :: "world \<Rightarrow> 16 word \<Rightarrow> EntityID list \<Rightarrow> world" where
  "onGateDisconnected w gid [] = w"
| "onGateDisconnected w gid (key # rest) =
     (case entities (entityManager w) key of
        None \<Rightarrow> onGateDisconnected w gid rest
      | Some entity \<Rightarrow>
          (case client entity of
             None \<Rightarrow> onGateDisconnected w gid rest
           | Some cl \<Rightarrow>
               if gateid cl = gid
               then onGateDisconnected
                      (deliverDisconnected
                         (w\<lparr>entityManager := onEntityLoseClient (entityManager w) (clientid cl)\<rparr>) key)
                      gid rest
               else onGateDisconnected w gid rest))"

text \<open>
  Modelled from the spec: \<open>Entity.Destroy\<close> is not among the sources. Destruction
  clears the client binding of the entity, undeclares the services it provided and
  removes it from the table.
\<close>

definition Destroy :: "world \<Rightarrow> EntityID \<Rightarrow> world" where
  "Destroy w eid =
     (case entities (entityManager w) eid of
        None \<Rightarrow> w
      | Some entity \<Rightarrow>
          (emit (Call_Destroy eid) w)
            \<lparr>entityManager :=
               del ((rebind (entityManager w) eid None)
                      \<lparr>registeredServices :=
                         (\<lambda>serviceName. map_option (\<lambda>eids. eids - {eid})
                                           (registeredServices (entityManager w) serviceName))\<rparr>)
                   (ID entity)\<rparr>)"

text \<open>
  The events that change the entity table or the ownership index, and a run of them.
  \<open>Create\<close> is a call of \<open>createEntity\<close>, as the creation, load, migration and restore
  paths make it.
\<close>

datatype op =
    Create string "Space option" Position EntityID "attrs option" "byte list option" "GameClient option" createCause
  | Bind EntityID "GameClient option"
  | Remove EntityID
  | ClientDisconnected ClientID
  | GateDisconnected "16 word" "EntityID list"

fun applyOp :: "env \<Rightarrow> world \<Rightarrow> op \<Rightarrow> world" where
  "applyOp e w (Create typeName space pos entityID data timerData cl cause) =
     snd (createEntity e w typeName space pos entityID data timerData cl cause)"
| "applyOp e w (Bind eid cl) = SetClient w eid cl"
| "applyOp e w (Remove eid) = Destroy w eid"
| "applyOp e w (ClientDisconnected cid) = snd (onClientDisconnected w cid)"
| "applyOp e w (GateDisconnected gid ord) = onGateDisconnected w gid ord"

text \<open>
  The id that a call of \<open>createEntity\<close> gives its entity, and the condition that this
  id is not the id of a resident entity.
\<close>

definition createdID :: "env \<Rightarrow> world \<Rightarrow> EntityID \<Rightarrow> EntityID" where
  "createdID e w entityID = (if entityID = [] then GenEntityID e (generated w) else entityID)"

fun freshCreate :: "env \<Rightarrow> world \<Rightarrow> op \<Rightarrow> bool" where
  "freshCreate e w (Create typeName space pos entityID data timerData cl cause) =
     (entities (entityManager w) (createdID e w entityID) = None)"
| "freshCreate e w other = True"

text \<open>A run in which every \<open>createEntity\<close> gets a fresh id; \<open>None\<close> when one does not.\<close>

fun run :: "env \<Rightarrow> world \<Rightarrow> op list \<Rightarrow> world option" where
  "run e w [] = Some w"
| "run e w (x # xs) = (if freshCreate e w x then run e (applyOp e w x) xs else None)"

text \<open>
  The table is keyed by the ids of its entities, and every client id of the ownership
  index maps to a resident entity whose client it is.
\<close>

definition consistent :: "EntityManager \<Rightarrow> bool" where
  "consistent em =
     ((\<forall>key entity. entities em key = Some entity \<longrightarrow> ID entity = key)
      \<and> (\<forall>cid eid. ownerOfClient em cid = Some eid
            \<longrightarrow> (\<exists>entity cl. entities em eid = Some entity \<and> client entity = Some cl \<and> clientid cl = cid)))"

text \<open>No client id of the ownership index maps to \<open>eid\<close>.\<close>

definition unowned :: "EntityManager \<Rightarrow> EntityID \<Rightarrow> bool" where
  "unowned em eid = (\<forall>cid. ownerOfClient em cid \<noteq> Some eid)"

section \<open>Sample inputs\<close>

definition playerAttrDefs :: "(string \<times> string list) list" where
  "playerAttrDefs = [(''hp'', [''Persistent'', ''Client'']), (''name'', [''AllClients'', ''persistent''])]"

definition matchServices :: EntityManager where
  "matchServices = onServiceEvents newEntityManager
     [Declare ''match'' ''e1'', Declare ''match'' ''e2'', Declare ''match'' ''e3'']"

definition sampleEnv :: env where
  "sampleEnv = \<lparr>GenEntityID = (\<lambda>n. ''gen'' @ replicate n CHR ''x''),
                IsPersistent = (\<lambda>typeName. typeName = ''Player''),
                typeconv_Int = (\<lambda>v. case v of Some (IntAttr i) \<Rightarrow> Inr (word_of_int i)
                                      | _ \<Rightarrow> Inl (OtherValue ''typeconv: cannot convert to int'')),
                logPanicIsError = False,
                GetFreezeData = (\<lambda>entity. \<lparr>Type = TypeName entity,
                                   Attrs = (if TypeName entity = ''__space__''
                                            then Some [(''_K'', IntAttr (Kind entity))] else None),
                                   Pos = (0, 0, 0),
                                   Client = map_option (\<lambda>c. \<lparr>ClientID = clientid c, GateID = gateid c\<rparr>)
                                              (client entity),
                                   SpaceID = [], TimerData = None, ESR = None\<rparr>),
                ToList = (\<lambda>eids. filter (\<lambda>eid. eid \<in> eids) [''e1'', ''e2'', ''e3''])\<rparr>"

definition sampleWorld :: world where
  "sampleWorld = \<lparr>registeredEntityTypes =
                    [''Player'' \<mapsto> newEntityTypeDesc ''Player'' [],
                     ''__space__'' \<mapsto> newEntityTypeDesc ''Space'' []],
                  entityManager = newEntityManager, trace = [], generated = 0\<rparr>"

definition playerData :: attrs where
  "playerData = [(''hp'', IntAttr 100), (''name'', OtherAttr ''A'')]"

definition nilSpaceInfo :: entityFreezeData where
  "nilSpaceInfo = \<lparr>Type = ''__space__'', Attrs = Some [(''_K'', IntAttr 0)], Pos = (0, 0, 0),
                   Client = None, SpaceID = [], TimerData = None, ESR = None\<rparr>"

definition spaceInfo :: entityFreezeData where
  "spaceInfo = \<lparr>Type = ''__space__'', Attrs = Some [(''_K'', IntAttr 1)], Pos = (0, 0, 0),
                Client = None, SpaceID = [], TimerData = None, ESR = None\<rparr>"

definition playerInfo :: entityFreezeData where
  "playerInfo = \<lparr>Type = ''Player'', Attrs = Some playerData, Pos = (1, 2, 3),
                 Client = Some \<lparr>ClientID = ''c1'', GateID = 7\<rparr>, SpaceID = ''S'',
                 TimerData = None, ESR = Some \<lparr>ESR_SpaceID = ''S'', EnterPos = (4, 5, 6)\<rparr>\<rparr>"

definition sampleFreeze :: FreezeData where
  "sampleFreeze = \<lparr>Entities = [''P'' \<mapsto> playerInfo, ''S'' \<mapsto> spaceInfo, ''N'' \<mapsto> nilSpaceInfo],
                   Services = [''match'' \<mapsto> [''P'']]\<rparr>"

definition ghostFreeze :: FreezeData where
  "ghostFreeze = \<lparr>Entities = [''G'' \<mapsto> playerInfo\<lparr>Type := ''Ghost''\<rparr>], Services = Map.empty\<rparr>"

definition nilSpaceEntity :: Entity where
  "nilSpaceEntity = \<lparr>ID = ''N'', TypeName = ''__space__'', client = None, Kind = 0\<rparr>"

definition playerEntity :: Entity where
  "playerEntity = \<lparr>ID = ''P'', TypeName = ''Player'',
                    client = Some \<lparr>clientid = ''c1'', gateid = 7\<rparr>, Kind = 0\<rparr>"

definition worldOf :: "Entity list \<Rightarrow> world" where
  "worldOf es = sampleWorld\<lparr>entityManager :=
      (foldl put newEntityManager es)\<lparr>registeredServices := [''match'' \<mapsto> {''e1'', ''e2''}]\<rparr>\<rparr>"

definition danglingRun :: "op list" where
  "danglingRun =
     [Create ''Player'' None (0, 0, 0) ''E'' (Some playerData) None None ccCreate,
      Bind ''E'' (Some \<lparr>clientid = ''c1'', gateid = 7\<rparr>),
      Create ''Player'' None (0, 0, 0) ''E'' (Some playerData) None None ccCreate,
      Remove ''E'']"

definition boundRun :: "op list" where
  "boundRun =
     [Create ''Player'' None (0, 0, 0) ''E'' (Some playerData) None None ccCreate,
      Bind ''E'' (Some \<lparr>clientid = ''c1'', gateid = 7\<rparr>),
      GateDisconnected 8 [''E'']]"

section \<open>Theorems\<close>

subsection \<open>Type registry\<close>

lemma scanDefs_flags:
  "scanDefs attr defs (a, c, p) = Inr (a', c', p') \<Longrightarrow> (a \<longrightarrow> c) \<Longrightarrow> (a' \<longrightarrow> c')"
  by (induction defs arbitrary: a c p) (auto split: if_splits)

lemma addAttr_subset:
  assumes "allClientAttrs desc \<subseteq> clientAttrs desc" and "fst flags \<longrightarrow> fst (snd flags)"
  shows "allClientAttrs (addAttr flags attr desc) \<subseteq> clientAttrs (addAttr flags attr desc)"
  using assms by (cases flags) (auto simp: addAttr_def)

lemma DefineAttrs_subset:
  "allClientAttrs desc \<subseteq> clientAttrs desc
   \<Longrightarrow> allClientAttrs (snd (DefineAttrs desc attrDefs)) \<subseteq> clientAttrs (snd (DefineAttrs desc attrDefs))"
proof (induction attrDefs arbitrary: desc)
  case Nil
  then show ?case by simp
next
  case (Cons entry rest)
  obtain attr defs where entry: "entry = (attr, defs)" by (cases entry)
  show ?case
  proof (cases "scanDefs attr defs (False, False, False)")
    case (Inl p)
    with Cons.prems entry show ?thesis by simp
  next
    case (Inr flags)
    obtain a c p where flags: "flags = (a, c, p)" by (cases flags)
    from Inr flags have "a \<longrightarrow> c" using scanDefs_flags by blast
    with Cons.prems flags
    have "allClientAttrs (addAttr flags attr desc) \<subseteq> clientAttrs (addAttr flags attr desc)"
      by (intro addAttr_subset) simp_all
    from Cons.IH [OF this] Inr entry show ?thesis by simp
  qed
qed

lemma DefineAttrsAll_subset:
  "allClientAttrs desc \<subseteq> clientAttrs desc
   \<Longrightarrow> allClientAttrs (DefineAttrsAll desc calls) \<subseteq> clientAttrs (DefineAttrsAll desc calls)"
  by (induction calls arbitrary: desc) (simp_all add: DefineAttrs_subset)

lemma ToLower_tags:
  "ToLower ''AllClients'' = ''allclients''"
  "ToLower ''Client'' = ''client''"
  "ToLower ''Persistent'' = ''persistent''"
  "ToLower ''persistent'' = ''persistent''"
  by (simp_all add: ToLower_def lower_char_def)

lemma VALID_ATTR_DEFS_eq: "VALID_ATTR_DEFS = {''client'', ''allclients'', ''persistent''}"
  by (simp add: VALID_ATTR_DEFS_def ToLower_tags)

lemma scanDefs_mono:
  "scanDefs attr defs (a, c, p) = Inr (a', c', p') \<Longrightarrow> (a \<longrightarrow> a') \<and> (c \<longrightarrow> c') \<and> (p \<longrightarrow> p')"
  by (induction defs arbitrary: a c p) (auto split: if_splits)

lemma scanDefs_allclients:
  "scanDefs attr defs (a, c, p) = Inr (a', c', p') \<Longrightarrow> d \<in> set defs \<Longrightarrow> ToLower d = ''allclients''
   \<Longrightarrow> a' \<and> c'"
proof (induction defs arbitrary: a c p)
  case Nil
  then show ?case by simp
next
  case (Cons x defs)
  show ?case
  proof (cases "x = d")
    case True
    with Cons.prems have "scanDefs attr defs (True, True, p) = Inr (a', c', p')"
      by (simp split: if_splits)
    then show ?thesis using scanDefs_mono by blast
  next
    case False
    with Cons.prems have d: "d \<in> set defs" by simp
    from Cons.prems(1) obtain a1 c1 p1 where "scanDefs attr defs (a1, c1, p1) = Inr (a', c', p')"
      by (auto split: if_splits)
    from Cons.IH [OF this d Cons.prems(3)] show ?thesis .
  qed
qed

lemma addAttr_grows:
  "allClientAttrs desc \<subseteq> allClientAttrs (addAttr flags attr desc)
   \<and> clientAttrs desc \<subseteq> clientAttrs (addAttr flags attr desc)"
  by (cases flags) (auto simp: addAttr_def)

lemma DefineAttrs_grows:
  "allClientAttrs desc \<subseteq> allClientAttrs (snd (DefineAttrs desc attrDefs))
   \<and> clientAttrs desc \<subseteq> clientAttrs (snd (DefineAttrs desc attrDefs))"
proof (induction attrDefs arbitrary: desc)
  case Nil
  then show ?case by simp
next
  case (Cons entry rest)
  obtain attr defs where entry: "entry = (attr, defs)" by (cases entry)
  show ?case
  proof (cases "scanDefs attr defs (False, False, False)")
    case (Inl p)
    with entry show ?thesis by simp
  next
    case (Inr flags)
    from Cons.IH [of "addAttr flags attr desc"] addAttr_grows [of desc flags attr] Inr entry
    show ?thesis by auto
  qed
qed

lemma DefineAttrs_tagged:
  "fst (DefineAttrs desc attrDefs) = None \<Longrightarrow> (attr, defs) \<in> set attrDefs \<Longrightarrow> d \<in> set defs
   \<Longrightarrow> ToLower d = ''allclients''
   \<Longrightarrow> attr \<in> allClientAttrs (snd (DefineAttrs desc attrDefs))
       \<and> attr \<in> clientAttrs (snd (DefineAttrs desc attrDefs))"
proof (induction attrDefs arbitrary: desc)
  case Nil
  then show ?case by simp
next
  case (Cons entry rest)
  obtain attr0 defs0 where entry: "entry = (attr0, defs0)" by (cases entry)
  show ?case
  proof (cases "scanDefs attr0 defs0 (False, False, False)")
    case (Inl p)
    with Cons.prems(1) entry show ?thesis by simp
  next
    case (Inr flags)
    obtain a c p where flags: "flags = (a, c, p)" by (cases flags)
    from Inr entry Cons.prems(1) have ok: "fst (DefineAttrs (addAttr flags attr0 desc) rest) = None"
      by simp
    show ?thesis
    proof (cases "(attr, defs) \<in> set rest")
      case True
      from Cons.IH [OF ok True Cons.prems(3,4)] Inr entry show ?thesis by simp
    next
      case False
      with Cons.prems(2) entry have same: "attr0 = attr" "defs0 = defs" by auto
      from Inr flags same scanDefs_allclients [OF _ Cons.prems(3,4)] have "a \<and> c" by blast
      with flags same have "attr \<in> allClientAttrs (addAttr flags attr0 desc)
          \<and> attr \<in> clientAttrs (addAttr flags attr0 desc)"
        by (simp add: addAttr_def)
      with DefineAttrs_grows [of "addAttr flags attr0 desc" rest] Inr entry show ?thesis by auto
    qed
  qed
qed

lemma DefineAttrs_new_allClient:
  "attr \<in> allClientAttrs (snd (DefineAttrs desc attrDefs)) \<Longrightarrow> attr \<notin> allClientAttrs desc
   \<Longrightarrow> attr \<in> clientAttrs (snd (DefineAttrs desc attrDefs))"
proof (induction attrDefs arbitrary: desc)
  case Nil
  then show ?case by simp
next
  case (Cons entry rest)
  obtain attr0 defs0 where entry: "entry = (attr0, defs0)" by (cases entry)
  show ?case
  proof (cases "scanDefs attr0 defs0 (False, False, False)")
    case (Inl p)
    with Cons.prems entry show ?thesis by simp
  next
    case (Inr flags)
    obtain a c p where flags: "flags = (a, c, p)" by (cases flags)
    from Inr flags have ac: "a \<longrightarrow> c" using scanDefs_flags by blast
    let ?d = "addAttr flags attr0 desc"
    from Cons.prems(1) Inr entry have in_res: "attr \<in> allClientAttrs (snd (DefineAttrs ?d rest))"
      by simp
    show ?thesis
    proof (cases "attr \<in> allClientAttrs ?d")
      case False
      from Cons.IH [OF in_res False] Inr entry show ?thesis by simp
    next
      case True
      with Cons.prems(2) flags ac have "attr \<in> clientAttrs ?d"
        by (auto simp: addAttr_def split: if_splits)
      with DefineAttrs_grows [of ?d rest] Inr entry show ?thesis by auto
    qed
  qed
qed

text \<open>
  Claim C9. A descriptor returned by \<open>RegisterEntity\<close> keeps
  \<open>allClientAttrs \<subseteq> clientAttrs\<close> after any run of \<open>DefineAttrs\<close> calls, whatever
  the tag maps and also when a call panics half way. An attribute with a tag that lowers
  to \<open>allclients\<close> is, after a call that returns, in both sets; and an attribute
  that a call adds to \<open>allClientAttrs\<close> is in \<open>clientAttrs\<close> after that call.
\<close>

theorem DefineAttrs_allClient_subset_client:
  assumes "fst (RegisterEntity types typeName goType methods) = Inr desc"
  shows "allClientAttrs (DefineAttrsAll desc calls) \<subseteq> clientAttrs (DefineAttrsAll desc calls)
    \<and> (\<forall>d0 attrDefs attr defs d.
          fst (DefineAttrs d0 attrDefs) = None \<and> (attr, defs) \<in> set attrDefs \<and> d \<in> set defs
            \<and> ToLower d = ''allclients''
          \<longrightarrow> attr \<in> allClientAttrs (snd (DefineAttrs d0 attrDefs))
              \<and> attr \<in> clientAttrs (snd (DefineAttrs d0 attrDefs)))
    \<and> (\<forall>d0 attrDefs attr.
          attr \<in> allClientAttrs (snd (DefineAttrs d0 attrDefs)) \<and> attr \<notin> allClientAttrs d0
          \<longrightarrow> attr \<in> clientAttrs (snd (DefineAttrs d0 attrDefs)))"
proof -
  from assms have "desc = newEntityTypeDesc goType methods"
    by (auto simp: RegisterEntity_def split: option.splits)
  then have "allClientAttrs desc \<subseteq> clientAttrs desc"
    by (simp add: newEntityTypeDesc_def)
  then have "allClientAttrs (DefineAttrsAll desc calls) \<subseteq> clientAttrs (DefineAttrsAll desc calls)"
    by (rule DefineAttrsAll_subset)
  moreover have "\<forall>d0 attrDefs attr defs d.
          fst (DefineAttrs d0 attrDefs) = None \<and> (attr, defs) \<in> set attrDefs \<and> d \<in> set defs
            \<and> ToLower d = ''allclients''
          \<longrightarrow> attr \<in> allClientAttrs (snd (DefineAttrs d0 attrDefs))
              \<and> attr \<in> clientAttrs (snd (DefineAttrs d0 attrDefs))"
    using DefineAttrs_tagged by blast
  moreover have "\<forall>d0 attrDefs attr.
          attr \<in> allClientAttrs (snd (DefineAttrs d0 attrDefs)) \<and> attr \<notin> allClientAttrs d0
          \<longrightarrow> attr \<in> clientAttrs (snd (DefineAttrs d0 attrDefs))"
    using DefineAttrs_new_allClient by blast
  ultimately show ?thesis by blast
qed

theorem DefineAttrs_allClient_subset_client_witness:
  "fst (RegisterEntity Map.empty ''Player'' ''Player'' []) = Inr (newEntityTypeDesc ''Player'' [])
   \<and> fst (DefineAttrs (newEntityTypeDesc ''Player'' []) playerAttrDefs) = None
   \<and> allClientAttrs (DefineAttrsAll (newEntityTypeDesc ''Player'' []) [playerAttrDefs]) = {''name''}
   \<and> {''name''} \<subseteq> clientAttrs (DefineAttrsAll (newEntityTypeDesc ''Player'' []) [playerAttrDefs])
   \<and> ''name'' \<in> clientAttrs (snd (DefineAttrs (newEntityTypeDesc ''Player'' []) playerAttrDefs))"
proof -
  let ?d = "newEntityTypeDesc ''Player'' []"
  have h: "fst (RegisterEntity Map.empty ''Player'' ''Player'' []) = Inr ?d"
    by (simp add: RegisterEntity_def)
  have ok: "fst (DefineAttrs ?d playerAttrDefs) = None"
    by (simp add: playerAttrDefs_def VALID_ATTR_DEFS_eq ToLower_tags)
  have a: "allClientAttrs (DefineAttrsAll ?d [playerAttrDefs]) = {''name''}"
    by (simp add: playerAttrDefs_def newEntityTypeDesc_def VALID_ATTR_DEFS_eq ToLower_tags addAttr_def)
  have m: "(''name'', [''AllClients'', ''persistent'']) \<in> set playerAttrDefs"
    by (simp add: playerAttrDefs_def)
  note inst = DefineAttrs_allClient_subset_client [OF h, of "[playerAttrDefs]"]
  from inst have sub: "allClientAttrs (DefineAttrsAll ?d [playerAttrDefs]) \<subseteq> clientAttrs (DefineAttrsAll ?d [playerAttrDefs])"
    by blast
  from inst ok m have "''name'' \<in> clientAttrs (snd (DefineAttrs ?d playerAttrDefs))"
    using ToLower_tags(1) by (metis list.set_intros(1))
  with h ok a sub show ?thesis by simp
qed

subsection \<open>Service directory\<close>

lemma dom_onDeclareService:
  "dom (registeredServices (onDeclareService em s eid)) = insert s (dom (registeredServices em))"
  by (auto simp: onDeclareService_def split: option.splits)

lemma dom_onUndeclareService:
  "dom (registeredServices (onUndeclareService em s eid)) = dom (registeredServices em)"
  by (auto simp: onUndeclareService_def split: option.splits)

lemma dom_foldl_onServiceEvent:
  "dom (registeredServices (foldl onServiceEvent em evs))
     = dom (registeredServices em) \<union> {s. \<exists>eid. Declare s eid \<in> set evs}"
proof (induction evs arbitrary: em)
  case Nil
  then show ?case by simp
next
  case (Cons ev evs)
  show ?case
  proof (cases ev)
    case (Declare s eid)
    with Cons.IH [of "onDeclareService em s eid"] show ?thesis
      by (auto simp: dom_onDeclareService)
  next
    case (Undeclare s eid)
    with Cons.IH [of "onUndeclareService em s eid"] show ?thesis
      by (auto simp: dom_onUndeclareService)
  qed
qed

text \<open>
  Claim C3, as stated, fails: after \<open>match\<close> is declared for \<open>e1\<close> and then
  undeclared for \<open>e1\<close>, the name \<open>match\<close> is still in the directory, with an empty
  provider set.
\<close>

theorem onUndeclareService_leaves_empty_set:
  "registeredServices
     (onServiceEvents newEntityManager [Declare ''match'' ''e1'', Undeclare ''match'' ''e1''])
     ''match'' = Some {}"
  by (simp add: onServiceEvents_def newEntityManager_def onDeclareService_def onUndeclareService_def)

text \<open>
  Claim C3, amended. \<open>onUndeclareService\<close> takes the entity id out of the provider set
  of a known service and never removes a service name: the names in the directory are the
  same before and after, so undeclaring the last provider leaves the name with the empty
  set. After any run of declare and undeclare events on a new entity manager the names
  in the directory are exactly the names that were ever declared.
\<close>

theorem onUndeclareService_keeps_service_name:
  "dom (registeredServices (onUndeclareService em serviceName eid)) = dom (registeredServices em)
   \<and> (\<forall>eids. registeredServices em serviceName = Some eids
         \<longrightarrow> registeredServices (onUndeclareService em serviceName eid) serviceName = Some (eids - {eid}))
   \<and> (registeredServices em serviceName = Some {eid}
         \<longrightarrow> registeredServices (onUndeclareService em serviceName eid) serviceName = Some {})
   \<and> dom (registeredServices (onServiceEvents newEntityManager evs))
         = {s. \<exists>e. Declare s e \<in> set evs}"
proof -
  have "dom (registeredServices (onServiceEvents newEntityManager evs))
         = {s. \<exists>e. Declare s e \<in> set evs}"
    unfolding onServiceEvents_def dom_foldl_onServiceEvent
    by (simp add: newEntityManager_def)
  moreover have "\<forall>eids. registeredServices em serviceName = Some eids
         \<longrightarrow> registeredServices (onUndeclareService em serviceName eid) serviceName = Some (eids - {eid})"
    by (simp add: onUndeclareService_def)
  moreover have "registeredServices em serviceName = Some {eid}
         \<longrightarrow> registeredServices (onUndeclareService em serviceName eid) serviceName = Some {}"
    by (simp add: onUndeclareService_def)
  ultimately show ?thesis
    using dom_onUndeclareService [of em serviceName eid] by blast
qed

theorem onUndeclareService_keeps_service_name_witness:
  "registeredServices (onDeclareService newEntityManager ''match'' ''e1'') ''match'' = Some {''e1''}
   \<and> registeredServices
        (onUndeclareService (onDeclareService newEntityManager ''match'' ''e1'') ''match'' ''e1'')
        ''match'' = Some {}"
proof -
  have h: "registeredServices (onDeclareService newEntityManager ''match'' ''e1'') ''match'' = Some {''e1''}"
    by (simp add: onDeclareService_def newEntityManager_def)
  from onUndeclareService_keeps_service_name
         [of "onDeclareService newEntityManager ''match'' ''e1''" "''match''" "''e1''" "[]"] h
  show ?thesis by blast
qed

subsection \<open>Choosing a provider\<close>

lemma chooseLoop_nth:
  "0 \<le> r \<Longrightarrow> r < int (length ord) \<Longrightarrow> chooseLoop r ord = Some (ord ! nat r)"
proof (induction ord arbitrary: r)
  case Nil
  then show ?case by simp
next
  case (Cons x xs)
  show ?case
  proof (cases "r = 0")
    case True
    then show ?thesis by simp
  next
    case False
    with Cons.prems have "0 \<le> r - 1" "r - 1 < int (length xs)" by auto
    from Cons.IH [OF this] False Cons.prems show ?thesis
      by (simp add: nth_Cons' nat_diff_distrib')
  qed
qed

lemma chooseServiceProvider_nth:
  assumes "registeredServices em serviceName = Some eids" "eids \<noteq> {}"
    and "distinct ord" "set ord = eids" "0 \<le> r" "r < int (card eids)"
  shows "chooseServiceProvider em serviceName r ord = Inr (ord ! nat r)"
proof -
  from assms(3,4) have len: "card eids = length ord" using distinct_card by fastforce
  with assms(2,4) have "card eids \<noteq> 0" by auto
  with assms(1,5,6) len show ?thesis
    by (simp add: chooseServiceProvider_def chooseLoop_nth)
qed

lemma chosen_once:
  assumes "registeredServices em serviceName = Some eids" "eids \<noteq> {}"
    and "distinct ord" "set ord = eids" "eid \<in> eids"
  shows "card {r. 0 \<le> r \<and> r < int (card eids) \<and> chooseServiceProvider em serviceName r ord = Inr eid} = 1"
proof -
  from assms(3,4) have len: "card eids = length ord" using distinct_card by fastforce
  from assms(4,5) obtain i where i: "i < length ord" "ord ! i = eid"
    by (auto simp: in_set_conv_nth)
  have "{r. 0 \<le> r \<and> r < int (card eids) \<and> chooseServiceProvider em serviceName r ord = Inr eid} = {int i}"
  proof (rule set_eqI)
    fix r
    show "r \<in> {r. 0 \<le> r \<and> r < int (card eids) \<and> chooseServiceProvider em serviceName r ord = Inr eid}
            \<longleftrightarrow> r \<in> {int i}"
    proof
      assume "r \<in> {r. 0 \<le> r \<and> r < int (card eids) \<and> chooseServiceProvider em serviceName r ord = Inr eid}"
      then have r: "0 \<le> r" "r < int (card eids)" "chooseServiceProvider em serviceName r ord = Inr eid"
        by auto
      from chooseServiceProvider_nth [OF assms(1-4) r(1,2)] r(3) have "ord ! nat r = eid" by simp
      moreover from r len have "nat r < length ord" by simp
      ultimately have "nat r = i" using i assms(3) by (metis nth_eq_iff_index_eq)
      with r(1) show "r \<in> {int i}" by simp
    next
      assume "r \<in> {int i}"
      then have r: "r = int i" by simp
      with i len have "0 \<le> r" "r < int (card eids)" by simp_all
      from chooseServiceProvider_nth [OF assms(1-4) this] r i this
      show "r \<in> {r. 0 \<le> r \<and> r < int (card eids) \<and> chooseServiceProvider em serviceName r ord = Inr eid}"
        by simp
    qed
  qed
  then show ?thesis by simp
qed

text \<open>
  Claim C8. An unknown service name panics. For a known name with a non-empty provider
  set of size \<open>n\<close>, visited in any order \<open>ord\<close>, a number \<open>rnd\<close> in \<open>[0, n)\<close>
  selects the provider at position \<open>rnd\<close> of that order, the loop returns from inside
  (the trailing return is not reached), and every provider is selected by exactly one of
  the \<open>n\<close> numbers, so a uniform \<open>rnd\<close> selects each provider with probability
  \<open>1/n\<close>.
\<close>

theorem chooseServiceProvider_uniform:
  "(registeredServices em serviceName = None
      \<longrightarrow> chooseServiceProvider em serviceName rnd ord = Inl (LogPanic (''service not found: '' @ serviceName)))
   \<and> (\<forall>eids. registeredServices em serviceName = Some eids \<and> eids \<noteq> {}
               \<and> distinct ord \<and> set ord = eids
        \<longrightarrow> (0 \<le> rnd \<and> rnd < int (card eids)
               \<longrightarrow> chooseServiceProvider em serviceName rnd ord = Inr (ord ! nat rnd)
                   \<and> chooseLoop rnd ord = Some (ord ! nat rnd)
                   \<and> ord ! nat rnd \<in> eids)
          \<and> (\<forall>eid \<in> eids.
                card {r. 0 \<le> r \<and> r < int (card eids)
                         \<and> chooseServiceProvider em serviceName r ord = Inr eid} = 1))"
proof (intro conjI impI allI ballI)
  assume "registeredServices em serviceName = None"
  then show "chooseServiceProvider em serviceName rnd ord = Inl (LogPanic (''service not found: '' @ serviceName))"
    by (simp add: chooseServiceProvider_def)
next
  fix eids
  assume a: "registeredServices em serviceName = Some eids \<and> eids \<noteq> {} \<and> distinct ord \<and> set ord = eids"
    and r: "0 \<le> rnd \<and> rnd < int (card eids)"
  from a have len: "card eids = length ord" using distinct_card by fastforce
  from a r show "chooseServiceProvider em serviceName rnd ord = Inr (ord ! nat rnd)"
    by (intro chooseServiceProvider_nth) auto
  from r len show "chooseLoop rnd ord = Some (ord ! nat rnd)"
    by (intro chooseLoop_nth) auto
  from a r len show "ord ! nat rnd \<in> eids"
    by (metis nat_less_iff nth_mem)
next
  fix eids eid
  assume a: "registeredServices em serviceName = Some eids \<and> eids \<noteq> {} \<and> distinct ord \<and> set ord = eids"
    and e: "eid \<in> eids"
  from a e show "card {r. 0 \<le> r \<and> r < int (card eids)
                         \<and> chooseServiceProvider em serviceName r ord = Inr eid} = 1"
    by (intro chosen_once) auto
qed

lemma matchServices_providers:
  "registeredServices matchServices ''match'' = Some {''e1'', ''e2'', ''e3''}"
  by (auto simp: matchServices_def onServiceEvents_def newEntityManager_def onDeclareService_def)

theorem chooseServiceProvider_uniform_witness:
  "registeredServices matchServices ''match'' = Some {''e1'', ''e2'', ''e3''}
   \<and> registeredServices matchServices ''other'' = None
   \<and> chooseServiceProvider matchServices ''other'' 0 [] = Inl (LogPanic ''service not found: other'')
   \<and> chooseServiceProvider matchServices ''match'' 1 [''e3'', ''e1'', ''e2''] = Inr ''e1''
   \<and> card {r. 0 \<le> r \<and> r < int (card {''e1'', ''e2'', ''e3''})
              \<and> chooseServiceProvider matchServices ''match'' r [''e3'', ''e1'', ''e2''] = Inr ''e2''} = 1"
proof -
  have known: "registeredServices matchServices ''match'' = Some {''e1'', ''e2'', ''e3''}"
    by (rule matchServices_providers)
  have unknown: "registeredServices matchServices ''other'' = None"
    by (simp add: matchServices_def onServiceEvents_def newEntityManager_def onDeclareService_def)
  have ord: "distinct [''e3'', ''e1'', ''e2'']" "set [''e3'', ''e1'', ''e2''] = {''e1'', ''e2'', ''e3''}"
    by auto
  have c: "card {''e1'', ''e2'', ''e3''} = 3" by simp
  from chooseServiceProvider_uniform [of matchServices "''other''" 0 "[]"] unknown
  have p: "chooseServiceProvider matchServices ''other'' 0 [] = Inl (LogPanic ''service not found: other'')"
    by simp
  from chooseServiceProvider_uniform [of matchServices "''match''" 1 "[''e3'', ''e1'', ''e2'']"] known ord c
  have q: "chooseServiceProvider matchServices ''match'' 1 [''e3'', ''e1'', ''e2''] = Inr ''e1''"
    and u: "card {r. 0 \<le> r \<and> r < int (card {''e1'', ''e2'', ''e3''})
              \<and> chooseServiceProvider matchServices ''match'' r [''e3'', ''e1'', ''e2''] = Inr ''e2''} = 1"
    by auto
  from known unknown p q u show ?thesis by blast
qed

subsection \<open>Creating an entity\<close>

lemmas createEntity_steps =
  loadData_def loadTimers_def startSaveTimer_def notifyCreate_def bindClient_def runCallback_def
  enterSpace_def SetClient_def assignClient_def rebind_def setClientField_def emit_def

lemma trace_loadData:
  "trace (loadData eid data cause w) = trace w @
     [case data of Some d \<Rightarrow> if cause = ccCreate then LoadPersistentData eid d else LoadMigrateData eid d
      | None \<Rightarrow> Save eid]"
  by (simp add: loadData_def emit_def split: option.splits)

lemma trace_loadTimers:
  "trace (loadTimers eid timerData w) = trace w @
     (case timerData of Some td \<Rightarrow> [restoreTimers eid td] | None \<Rightarrow> [])"
  by (simp add: loadTimers_def emit_def split: option.splits)

lemma trace_startSaveTimer:
  "trace (startSaveTimer e typeName eid w) = trace w @
     (if IsPersistent e typeName then [setupSaveTimer eid] else [])"
  by (simp add: startSaveTimer_def emit_def)

lemma trace_notifyCreate:
  "trace (notifyCreate eid cause w) = trace w @
     (if cause = ccCreate \<or> cause = ccRestore then [SendNotifyCreateEntity eid] else [])"
  by (simp add: notifyCreate_def emit_def)

lemma trace_bindClient:
  "trace (bindClient eid cl cause w) = trace w @
     (case cl of Some c \<Rightarrow> if cause = ccCreate then [Call_SetClient eid (Some c)] else [] | None \<Rightarrow> [])"
  by (simp add: bindClient_def SetClient_def assignClient_def emit_def split: option.splits)

lemma trace_runCallback:
  "trace (runCallback eid cause w) = trace w @
     [case cause of ccCreate \<Rightarrow> OnCreated eid | ccMigrate \<Rightarrow> OnMigrateIn eid | ccRestore \<Rightarrow> OnRestored eid]"
  by (cases cause) (simp_all add: runCallback_def emit_def)

lemma trace_enterSpace:
  "trace (enterSpace eid space pos cause w) = trace w @
     (case space of Some sp \<Rightarrow> [enter (SpaceEntityID sp) eid pos (cause = ccRestore)] | None \<Rightarrow> [])"
  by (simp add: enterSpace_def emit_def split: option.splits)

lemmas trace_steps =
  trace_loadData trace_loadTimers trace_startSaveTimer trace_notifyCreate trace_bindClient
  trace_runCallback trace_enterSpace

text \<open>The whole run of \<open>createEntity\<close> for a registered type, as one list of events.\<close>

lemma createEntity_registered:
  assumes "registeredEntityTypes w typeName = Some desc"
  shows "\<exists>w'. createEntity e w typeName space pos entityID data timerData cl cause
            = (Inr (if entityID = [] then GenEntityID e (generated w) else entityID), w')
          \<and> registeredEntityTypes w' = registeredEntityTypes w
          \<and> trace w' = trace w @
              (let eid = (if entityID = [] then GenEntityID e (generated w) else entityID) in
               [Call_createEntity typeName entityID cause,
                case data of Some d \<Rightarrow> if cause = ccCreate then LoadPersistentData eid d else LoadMigrateData eid d
                | None \<Rightarrow> Save eid]
               @ (case timerData of Some td \<Rightarrow> [restoreTimers eid td] | None \<Rightarrow> [])
               @ (if IsPersistent e typeName then [setupSaveTimer eid] else [])
               @ (if cause = ccCreate \<or> cause = ccRestore then [SendNotifyCreateEntity eid] else [])
               @ (case cl of Some c \<Rightarrow> if cause = ccCreate then [Call_SetClient eid (Some c)] else [] | None \<Rightarrow> [])
               @ [case cause of ccCreate \<Rightarrow> OnCreated eid | ccMigrate \<Rightarrow> OnMigrateIn eid | ccRestore \<Rightarrow> OnRestored eid]
               @ (case space of Some sp \<Rightarrow> [enter (SpaceEntityID sp) eid pos (cause = ccRestore)] | None \<Rightarrow> []))"
proof -
  have reg: "registeredEntityTypes (emit (Call_createEntity typeName entityID cause) w) typeName = Some desc"
    using assms by (simp add: emit_def)
  have gen: "generated (emit (Call_createEntity typeName entityID cause) w) = generated w"
    by (simp add: emit_def)
  show ?thesis
    unfolding createEntity_def Let_def
    apply (simp only: reg option.case gen)
    apply (cases cause)
      apply (simp_all add: trace_steps)
      apply (simp_all add: emit_def createEntity_steps split: option.splits)
    done
qed

lemma createEntity_unregistered:
  assumes "registeredEntityTypes w typeName = None"
  shows "createEntity e w typeName space pos entityID data timerData cl cause
           = (Inl (LogPanic (''unknown entity type: '' @ typeName)),
              emit (Call_createEntity typeName entityID cause) w)"
  using assms by (simp add: createEntity_def emit_def)

lemma newEvents_emit: "newEvents w (emit ev w) = [ev]"
  by (simp add: newEvents_def emit_def)

text \<open>
  Claim C4. A call of \<open>createEntity\<close> for a registered type returns, and of the three
  events \<open>LoadPersistentData\<close>, \<open>LoadMigrateData\<close> and \<open>Save\<close> it produces
  exactly one: \<open>LoadPersistentData(data)\<close> when \<open>data\<close> is not nil and the cause is
  Create, \<open>LoadMigrateData(data)\<close> when \<open>data\<close> is not nil and the cause is Migrate or
  Restore, \<open>Save()\<close> when \<open>data\<close> is nil.
\<close>

theorem createEntity_materializes_once:
  assumes "registeredEntityTypes w typeName = Some desc"
  shows "\<exists>eid w'. createEntity e w typeName space pos entityID data timerData cl cause = (Inr eid, w')
     \<and> length (filter isMaterialize (newEvents w w')) = 1
     \<and> (\<forall>d. data = Some d \<and> cause = ccCreate
            \<longrightarrow> filter isMaterialize (newEvents w w') = [LoadPersistentData eid d])
     \<and> (\<forall>d. data = Some d \<and> (cause = ccMigrate \<or> cause = ccRestore)
            \<longrightarrow> filter isMaterialize (newEvents w w') = [LoadMigrateData eid d])
     \<and> (data = None \<longrightarrow> filter isMaterialize (newEvents w w') = [Save eid])"
proof -
  from createEntity_registered [OF assms, of e space pos entityID data timerData cl cause]
  obtain w' where
    r: "createEntity e w typeName space pos entityID data timerData cl cause
          = (Inr (if entityID = [] then GenEntityID e (generated w) else entityID), w')"
    and tr: "trace w' = trace w @
              (let eid = (if entityID = [] then GenEntityID e (generated w) else entityID) in
               [Call_createEntity typeName entityID cause,
                case data of Some d \<Rightarrow> if cause = ccCreate then LoadPersistentData eid d else LoadMigrateData eid d
                | None \<Rightarrow> Save eid]
               @ (case timerData of Some td \<Rightarrow> [restoreTimers eid td] | None \<Rightarrow> [])
               @ (if IsPersistent e typeName then [setupSaveTimer eid] else [])
               @ (if cause = ccCreate \<or> cause = ccRestore then [SendNotifyCreateEntity eid] else [])
               @ (case cl of Some c \<Rightarrow> if cause = ccCreate then [Call_SetClient eid (Some c)] else [] | None \<Rightarrow> [])
               @ [case cause of ccCreate \<Rightarrow> OnCreated eid | ccMigrate \<Rightarrow> OnMigrateIn eid | ccRestore \<Rightarrow> OnRestored eid]
               @ (case space of Some sp \<Rightarrow> [enter (SpaceEntityID sp) eid pos (cause = ccRestore)] | None \<Rightarrow> []))"
    by blast
  have ev: "newEvents w w' =
              (let eid = (if entityID = [] then GenEntityID e (generated w) else entityID) in
               [Call_createEntity typeName entityID cause,
                case data of Some d \<Rightarrow> if cause = ccCreate then LoadPersistentData eid d else LoadMigrateData eid d
                | None \<Rightarrow> Save eid]
               @ (case timerData of Some td \<Rightarrow> [restoreTimers eid td] | None \<Rightarrow> [])
               @ (if IsPersistent e typeName then [setupSaveTimer eid] else [])
               @ (if cause = ccCreate \<or> cause = ccRestore then [SendNotifyCreateEntity eid] else [])
               @ (case cl of Some c \<Rightarrow> if cause = ccCreate then [Call_SetClient eid (Some c)] else [] | None \<Rightarrow> [])
               @ [case cause of ccCreate \<Rightarrow> OnCreated eid | ccMigrate \<Rightarrow> OnMigrateIn eid | ccRestore \<Rightarrow> OnRestored eid]
               @ (case space of Some sp \<Rightarrow> [enter (SpaceEntityID sp) eid pos (cause = ccRestore)] | None \<Rightarrow> []))"
    unfolding newEvents_def tr by simp
  have "filter isMaterialize (newEvents w w') =
          [case data of
             Some d \<Rightarrow> if cause = ccCreate
                       then LoadPersistentData (if entityID = [] then GenEntityID e (generated w) else entityID) d
                       else LoadMigrateData (if entityID = [] then GenEntityID e (generated w) else entityID) d
           | None \<Rightarrow> Save (if entityID = [] then GenEntityID e (generated w) else entityID)]"
    unfolding ev Let_def by (cases cause) (simp_all split: option.splits)
  with r show ?thesis by (cases cause) auto
qed

theorem createEntity_materializes_once_witness:
  "registeredEntityTypes sampleWorld ''Player'' = Some (newEntityTypeDesc ''Player'' [])
   \<and> (\<exists>w'. createEntity sampleEnv sampleWorld ''Player'' None (0, 0, 0) ''p1'' (Some playerData) None None ccCreate
              = (Inr ''p1'', w')
         \<and> filter isMaterialize (newEvents sampleWorld w') = [LoadPersistentData ''p1'' playerData])"
proof -
  have reg: "registeredEntityTypes sampleWorld ''Player'' = Some (newEntityTypeDesc ''Player'' [])"
    by (simp add: sampleWorld_def)
  have res: "fst (createEntity sampleEnv sampleWorld ''Player'' None (0, 0, 0) ''p1'' (Some playerData) None None ccCreate)
               = Inr ''p1''"
    by (simp add: createEntity_def Let_def emit_def sampleWorld_def)
  from createEntity_materializes_once [OF reg, of sampleEnv None "(0, 0, 0)" "''p1''" "Some playerData" None None ccCreate]
    reg res show ?thesis by auto
qed

text \<open>
  Claim C5. A call of \<open>createEntity\<close> for a registered type returns and sends
  \<open>SendNotifyCreateEntity\<close> for the new entity if and only if the cause is Create or
  Restore, and for no other id; with the cause Migrate no create-notification is sent,
  whatever the type name.
\<close>

theorem createEntity_notifies_iff_Create_or_Restore:
  "(\<forall>desc. registeredEntityTypes w typeName = Some desc
      \<longrightarrow> (\<exists>eid w'. createEntity e w typeName space pos entityID data timerData cl cause = (Inr eid, w')
             \<and> (SendNotifyCreateEntity eid \<in> set (newEvents w w') \<longleftrightarrow> cause = ccCreate \<or> cause = ccRestore)
             \<and> (\<forall>x. SendNotifyCreateEntity x \<in> set (newEvents w w') \<longrightarrow> x = eid)))
   \<and> (cause = ccMigrate
      \<longrightarrow> (\<forall>x. SendNotifyCreateEntity x
              \<notin> set (newEvents w (snd (createEntity e w typeName space pos entityID data timerData cl cause)))))"
proof (intro conjI allI impI)
  fix desc
  assume reg: "registeredEntityTypes w typeName = Some desc"
  from createEntity_registered [OF reg, of e space pos entityID data timerData cl cause]
  obtain w' where
    r: "createEntity e w typeName space pos entityID data timerData cl cause
          = (Inr (if entityID = [] then GenEntityID e (generated w) else entityID), w')"
    and tr: "trace w' = trace w @
              (let eid = (if entityID = [] then GenEntityID e (generated w) else entityID) in
               [Call_createEntity typeName entityID cause,
                case data of Some d \<Rightarrow> if cause = ccCreate then LoadPersistentData eid d else LoadMigrateData eid d
                | None \<Rightarrow> Save eid]
               @ (case timerData of Some td \<Rightarrow> [restoreTimers eid td] | None \<Rightarrow> [])
               @ (if IsPersistent e typeName then [setupSaveTimer eid] else [])
               @ (if cause = ccCreate \<or> cause = ccRestore then [SendNotifyCreateEntity eid] else [])
               @ (case cl of Some c \<Rightarrow> if cause = ccCreate then [Call_SetClient eid (Some c)] else [] | None \<Rightarrow> [])
               @ [case cause of ccCreate \<Rightarrow> OnCreated eid | ccMigrate \<Rightarrow> OnMigrateIn eid | ccRestore \<Rightarrow> OnRestored eid]
               @ (case space of Some sp \<Rightarrow> [enter (SpaceEntityID sp) eid pos (cause = ccRestore)] | None \<Rightarrow> []))"
    by blast
  have ev: "newEvents w w' =
              (let eid = (if entityID = [] then GenEntityID e (generated w) else entityID) in
               [Call_createEntity typeName entityID cause,
                case data of Some d \<Rightarrow> if cause = ccCreate then LoadPersistentData eid d else LoadMigrateData eid d
                | None \<Rightarrow> Save eid]
               @ (case timerData of Some td \<Rightarrow> [restoreTimers eid td] | None \<Rightarrow> [])
               @ (if IsPersistent e typeName then [setupSaveTimer eid] else [])
               @ (if cause = ccCreate \<or> cause = ccRestore then [SendNotifyCreateEntity eid] else [])
               @ (case cl of Some c \<Rightarrow> if cause = ccCreate then [Call_SetClient eid (Some c)] else [] | None \<Rightarrow> [])
               @ [case cause of ccCreate \<Rightarrow> OnCreated eid | ccMigrate \<Rightarrow> OnMigrateIn eid | ccRestore \<Rightarrow> OnRestored eid]
               @ (case space of Some sp \<Rightarrow> [enter (SpaceEntityID sp) eid pos (cause = ccRestore)] | None \<Rightarrow> []))"
    unfolding newEvents_def tr by simp
  have "\<And>x. SendNotifyCreateEntity x \<in> set (newEvents w w')
          \<longleftrightarrow> (cause = ccCreate \<or> cause = ccRestore)
              \<and> x = (if entityID = [] then GenEntityID e (generated w) else entityID)"
    unfolding ev Let_def by (cases cause) (auto split: option.splits)
  with r show "\<exists>eid w'. createEntity e w typeName space pos entityID data timerData cl cause = (Inr eid, w')
             \<and> (SendNotifyCreateEntity eid \<in> set (newEvents w w') \<longleftrightarrow> cause = ccCreate \<or> cause = ccRestore)
             \<and> (\<forall>x. SendNotifyCreateEntity x \<in> set (newEvents w w') \<longrightarrow> x = eid)"
    by auto
next
  fix x
  assume m: "cause = ccMigrate"
  show "SendNotifyCreateEntity x
          \<notin> set (newEvents w (snd (createEntity e w typeName space pos entityID data timerData cl cause)))"
  proof (cases "registeredEntityTypes w typeName")
    case None
    from createEntity_unregistered [OF None] show ?thesis
      by (simp add: newEvents_emit)
  next
    case (Some desc)
    from createEntity_registered [OF Some, of e space pos entityID data timerData cl cause] m
    show ?thesis by (auto simp: newEvents_def Let_def split: option.splits)
  qed
qed

theorem createEntity_notifies_iff_Create_or_Restore_witness:
  "registeredEntityTypes sampleWorld ''Player'' = Some (newEntityTypeDesc ''Player'' [])
   \<and> (\<exists>w'. createEntity sampleEnv sampleWorld ''Player'' None (0, 0, 0) ''p1'' None None None ccRestore
              = (Inr ''p1'', w')
         \<and> SendNotifyCreateEntity ''p1'' \<in> set (newEvents sampleWorld w'))
   \<and> SendNotifyCreateEntity ''p1''
        \<notin> set (newEvents sampleWorld
                 (snd (createEntity sampleEnv sampleWorld ''Player'' None (0, 0, 0) ''p1'' None None None ccMigrate)))"
proof -
  let ?run = "\<lambda>cause. createEntity sampleEnv sampleWorld ''Player'' None (0, 0, 0) ''p1'' None None None cause"
  have reg: "registeredEntityTypes sampleWorld ''Player'' = Some (newEntityTypeDesc ''Player'' [])"
    by (simp add: sampleWorld_def)
  have res: "fst (?run ccRestore) = Inr ''p1''"
    by (simp add: createEntity_def Let_def emit_def sampleWorld_def)
  note inst = createEntity_notifies_iff_Create_or_Restore
         [of sampleWorld "''Player''" sampleEnv None "(0, 0, 0)" "''p1''" None None None]
  from inst [of ccRestore] reg
  obtain eid w' where r: "?run ccRestore = (Inr eid, w')"
    and n: "SendNotifyCreateEntity eid \<in> set (newEvents sampleWorld w') \<longleftrightarrow> ccRestore = ccCreate \<or> ccRestore = ccRestore"
    by blast
  from r res have "eid = ''p1''" by simp
  with r n have a: "\<exists>w'. ?run ccRestore = (Inr ''p1'', w')
         \<and> SendNotifyCreateEntity ''p1'' \<in> set (newEvents sampleWorld w')"
    by simp
  from inst [of ccMigrate]
  have b: "SendNotifyCreateEntity ''p1'' \<notin> set (newEvents sampleWorld (snd (?run ccMigrate)))"
    by blast
  from reg a b show ?thesis by blast
qed

subsection \<open>Loading an entity\<close>

text \<open>
  Claim C2 fails on the code. When the storage reports an error, the callback panics in
  \<open>gwlog.Panicf\<close>: nothing is sent to the dispatcher, the state is as before, and no
  entity is put into the table. The send of \<open>SendNotifyDestroyEntity\<close> that follows
  in the source is not reached.
\<close>

theorem loadCallback_error_panics_before_notify:
  "loadCallback e w typeName entityID space pos data (Some msg)
     = (Inl (LogPanic (''load entity '' @ typeName @ ''.'' @ entityID @ '' failed: '' @ msg)), w)
   \<and> SendNotifyDestroyEntity entityID
       \<notin> set (newEvents w (snd (loadCallback e w typeName entityID space pos data (Some msg))))
   \<and> entities (entityManager (snd (loadCallback e w typeName entityID space pos data (Some msg))))
       = entities (entityManager w)"
  by (simp add: loadCallback_def gwlog_Panicf_def newEvents_def)

subsection \<open>Restoring a snapshot\<close>

lemma RestoreFreezedEntities_wraps_error:
  "restoreBody e freeze ord1 ord2 ord3 svcOrd w = (Some p, w') \<Longrightarrow> implementsError e p
   \<Longrightarrow> RestoreFreezedEntities e freeze ord1 ord2 ord3 svcOrd w
         = (Inr (Some (''panic during restore: '' @ panicMessage p)), w')"
  by (simp add: RestoreFreezedEntities_def)

lemma RestoreFreezedEntities_other_value:
  "restoreBody e freeze ord1 ord2 ord3 svcOrd w = (Some p, w') \<Longrightarrow> \<not> implementsError e p
   \<Longrightarrow> RestoreFreezedEntities e freeze ord1 ord2 ord3 svcOrd w
         = (Inl (ErrorValue ''interface conversion: interface {} is not error''), w')"
  by (simp add: RestoreFreezedEntities_def)

lemma ghost_restoreBody:
  "fst (restoreBody sampleEnv ghostFreeze [''G''] [''G''] [''G''] [] sampleWorld)
     = Some (LogPanic ''unknown entity type: Ghost'')"
  by (simp add: restoreBody_def restoreEntity_def recreate_def postEnterSpace_def spaceKindOf_def
        ghostFreeze_def playerInfo_def
        SPACE_ENTITY_TYPE_def isNilSpaceEntry_def isOtherSpaceEntry_def isNonSpaceEntry_def
        createEntity_def Let_def emit_def sampleWorld_def getSpace_def newEntityManager_def)

text \<open>
  Claim C7 fails on the code. The snapshot \<open>ghostFreeze\<close> holds one entity of a type
  that is not registered, so \<open>createEntity\<close> panics in \<open>gwlog.Panicf\<close>; where the
  value of that panic does not implement \<open>error\<close>, the type assertion in the deferred
  function panics in its turn and \<open>RestoreFreezedEntities\<close> ends with a panic, not
  with an error.
\<close>

theorem RestoreFreezedEntities_panic_escapes:
  "fst (RestoreFreezedEntities sampleEnv ghostFreeze [''G''] [''G''] [''G''] [] sampleWorld)
     = Inl (ErrorValue ''interface conversion: interface {} is not error'')"
proof -
  obtain w' where b: "restoreBody sampleEnv ghostFreeze [''G''] [''G''] [''G''] [] sampleWorld
                        = (Some (LogPanic ''unknown entity type: Ghost''), w')"
    using ghost_restoreBody by (metis prod.collapse)
  have "\<not> implementsError sampleEnv (LogPanic ''unknown entity type: Ghost'')"
    by (simp add: sampleEnv_def)
  from RestoreFreezedEntities_other_value [OF b this] show ?thesis by simp
qed

subsection \<open>Freezing\<close>

lemma freezeEntities_eq:
  "freezeEntities e em ord infos found =
     (if (found \<and> residentNilSpaces em ord \<noteq> []) \<or> 2 \<le> length (residentNilSpaces em ord)
      then Inl ''found duplicate nil space''
      else Inr (collected e em ord infos, found \<or> residentNilSpaces em ord \<noteq> []))"
proof (induction ord arbitrary: infos found)
  case Nil
  then show ?case by (simp add: residentNilSpaces_def)
next
  case (Cons key rest)
  show ?case
  proof (cases "entities em key")
    case None
    then show ?thesis
      by (simp add: Cons.IH residentNilSpaces_def)
  next
    case (Some entity)
    show ?thesis
    proof (cases "IsSpaceEntity entity \<and> IsNilSpace entity")
      case True
      with Some show ?thesis
        by (cases found) (simp_all add: Cons.IH residentNilSpaces_def Suc_le_eq)
    next
      case False
      with Some show ?thesis
        by (auto simp: Cons.IH residentNilSpaces_def)
    qed
  qed
qed

lemma collected_lookup:
  assumes "\<forall>key entity. entities em key = Some entity \<longrightarrow> ID entity = key"
  shows "collected e em ord infos k =
           (if k \<in> set ord \<and> entities em k \<noteq> None
            then map_option (GetFreezeData e) (entities em k) else infos k)"
proof (induction ord arbitrary: infos)
  case Nil
  then show ?case by simp
next
  case (Cons key rest)
  show ?case
  proof (cases "entities em key")
    case None
    then show ?thesis by (auto simp: Cons.IH)
  next
    case (Some entity)
    with assms have "ID entity = key" by blast
    with Some show ?thesis by (auto simp: Cons.IH)
  qed
qed

lemma residentNilSpaces_count:
  assumes "distinct ord" and "set ord = dom (entities em)"
  shows "length (residentNilSpaces em ord)
           = card {key. \<exists>entity. entities em key = Some entity \<and> IsSpaceEntity entity \<and> IsNilSpace entity}"
proof -
  have "{key. case entities em key of Some entity \<Rightarrow> IsSpaceEntity entity \<and> IsNilSpace entity | None \<Rightarrow> False}
          \<inter> set ord
        = {key. \<exists>entity. entities em key = Some entity \<and> IsSpaceEntity entity \<and> IsNilSpace entity}"
    using assms(2) by (auto split: option.splits)
  with distinct_length_filter [OF assms(1)] show ?thesis
    by (simp add: residentNilSpaces_def)
qed

text \<open>
  Claim C6. Let \<open>ord\<close> list every key of the entity table once, in the order of the
  sweep. If the number of resident nil spaces is not one, \<open>Freeze\<close> returns an error
  and the state (entity table, ownership index, service directory) is as before. If it
  is one, \<open>Freeze\<close> returns a snapshot, with the state as before, that holds the
  freeze data of every resident entity and of nothing else, and the list of the
  providers of every service of the directory.
\<close>

theorem Freeze_needs_one_nil_space:
  assumes "distinct ord"
    and "set ord = dom (entities (entityManager w))"
    and "\<forall>key entity. entities (entityManager w) key = Some entity \<longrightarrow> ID entity = key"
  shows "(length (residentNilSpaces (entityManager w) ord) \<noteq> 1
            \<longrightarrow> (\<exists>err. Freeze e w gameid ord = (Inl err, w)))
       \<and> (length (residentNilSpaces (entityManager w) ord) = 1
            \<longrightarrow> (\<exists>freeze. Freeze e w gameid ord = (Inr freeze, w)
                  \<and> (\<forall>key entity. entities (entityManager w) key = Some entity
                        \<longrightarrow> Entities freeze key = Some (GetFreezeData e entity))
                  \<and> dom (Entities freeze) = dom (entities (entityManager w))
                  \<and> (\<forall>serviceName. Services freeze serviceName
                        = map_option (ToList e) (registeredServices (entityManager w) serviceName))))"
proof (intro conjI impI)
  let ?em = "entityManager w"
  let ?ns = "residentNilSpaces ?em ord"
  assume n: "length ?ns \<noteq> 1"
  show "\<exists>err. Freeze e w gameid ord = (Inl err, w)"
  proof (cases "?ns = []")
    case True
    then show ?thesis by (simp add: Freeze_def freezeEntities_eq)
  next
    case False
    with n have "2 \<le> length ?ns" by (cases ?ns) (auto simp: Suc_le_eq)
    then show ?thesis by (simp add: Freeze_def freezeEntities_eq)
  qed
next
  let ?em = "entityManager w"
  let ?ns = "residentNilSpaces ?em ord"
  let ?infos = "collected e ?em ord Map.empty"
  let ?freeze = "\<lparr>Entities = ?infos,
                  Services = (\<lambda>serviceName. map_option (ToList e) (registeredServices ?em serviceName))\<rparr>"
  assume n: "length ?ns = 1"
  then have ne: "?ns \<noteq> []" and lt: "\<not> 2 \<le> length ?ns" by auto
  have r: "Freeze e w gameid ord = (Inr ?freeze, w)"
    using ne lt by (simp add: Freeze_def freezeEntities_eq)
  have look: "\<And>k. ?infos k = map_option (GetFreezeData e) (entities ?em k)"
    using collected_lookup [OF assms(3), of e ord Map.empty] assms(2) by (auto simp: domIff)
  have a: "\<forall>key entity. entities ?em key = Some entity \<longrightarrow> Entities ?freeze key = Some (GetFreezeData e entity)"
    by (simp add: look)
  have b: "dom (Entities ?freeze) = dom (entities ?em)"
    by (auto simp: look domIff)
  have c: "\<forall>serviceName. Services ?freeze serviceName
                        = map_option (ToList e) (registeredServices ?em serviceName)"
    by simp
  from r a b c show "\<exists>freeze. Freeze e w gameid ord = (Inr freeze, w)
                  \<and> (\<forall>key entity. entities ?em key = Some entity
                        \<longrightarrow> Entities freeze key = Some (GetFreezeData e entity))
                  \<and> dom (Entities freeze) = dom (entities ?em)
                  \<and> (\<forall>serviceName. Services freeze serviceName
                        = map_option (ToList e) (registeredServices ?em serviceName))"
    by blast
qed

lemma worldOf_entities:
  "entities (entityManager (worldOf [nilSpaceEntity, playerEntity]))
     = [''N'' \<mapsto> nilSpaceEntity, ''P'' \<mapsto> playerEntity]"
  "entities (entityManager (worldOf [nilSpaceEntity, nilSpaceEntity\<lparr>ID := ''N2''\<rparr>]))
     = [''N'' \<mapsto> nilSpaceEntity, ''N2'' \<mapsto> nilSpaceEntity\<lparr>ID := ''N2''\<rparr>]"
  by (simp_all add: worldOf_def put_def newEntityManager_def nilSpaceEntity_def playerEntity_def)

theorem Freeze_needs_one_nil_space_witness:
  "(\<exists>freeze. Freeze sampleEnv (worldOf [nilSpaceEntity, playerEntity]) 1 [''N'', ''P'']
               = (Inr freeze, worldOf [nilSpaceEntity, playerEntity])
            \<and> Entities freeze ''P'' = Some (GetFreezeData sampleEnv playerEntity))
   \<and> (\<exists>err. Freeze sampleEnv (worldOf [nilSpaceEntity, nilSpaceEntity\<lparr>ID := ''N2''\<rparr>]) 1 [''N'', ''N2'']
               = (Inl err, worldOf [nilSpaceEntity, nilSpaceEntity\<lparr>ID := ''N2''\<rparr>]))"
proof -
  let ?w1 = "worldOf [nilSpaceEntity, playerEntity]"
  let ?w2 = "worldOf [nilSpaceEntity, nilSpaceEntity\<lparr>ID := ''N2''\<rparr>]"
  have d1: "set [''N'', ''P''] = dom (entities (entityManager ?w1))"
    by (auto simp: worldOf_entities)
  have k1: "\<forall>key entity. entities (entityManager ?w1) key = Some entity \<longrightarrow> ID entity = key"
    unfolding worldOf_entities by (auto simp: nilSpaceEntity_def playerEntity_def split: if_splits)
  have n1: "length (residentNilSpaces (entityManager ?w1) [''N'', ''P'']) = 1"
    unfolding residentNilSpaces_def worldOf_entities
    by (simp add: nilSpaceEntity_def playerEntity_def IsSpaceEntity_def IsNilSpace_def SPACE_ENTITY_TYPE_def)
  have p1: "entities (entityManager ?w1) ''P'' = Some playerEntity"
    by (simp add: worldOf_entities)
  from Freeze_needs_one_nil_space [OF _ d1 k1, of sampleEnv 1] n1 p1
  have a: "\<exists>freeze. Freeze sampleEnv ?w1 1 [''N'', ''P''] = (Inr freeze, ?w1)
            \<and> Entities freeze ''P'' = Some (GetFreezeData sampleEnv playerEntity)"
    by auto
  have d2: "set [''N'', ''N2''] = dom (entities (entityManager ?w2))"
    by (auto simp: worldOf_entities)
  have k2: "\<forall>key entity. entities (entityManager ?w2) key = Some entity \<longrightarrow> ID entity = key"
    unfolding worldOf_entities by (auto simp: nilSpaceEntity_def split: if_splits)
  have n2: "length (residentNilSpaces (entityManager ?w2) [''N'', ''N2'']) \<noteq> 1"
    unfolding residentNilSpaces_def worldOf_entities
    by (simp add: nilSpaceEntity_def IsSpaceEntity_def IsNilSpace_def SPACE_ENTITY_TYPE_def)
  from Freeze_needs_one_nil_space [OF _ d2 k2, of sampleEnv 1] n2
  have b: "\<exists>err. Freeze sampleEnv ?w2 1 [''N'', ''N2''] = (Inl err, ?w2)"
    by auto
  from a b show ?thesis by blast
qed

subsection \<open>The three phases of restore\<close>

lemma createCalls_append: "createCalls (xs @ ys) = createCalls xs @ createCalls ys"
proof (induction xs)
  case Nil
  then show ?case by simp
next
  case (Cons ev xs)
  then show ?case by (cases ev) simp_all
qed

lemma createEntity_calls:
  "\<exists>evs. trace (snd (createEntity e w typeName space pos entityID data timerData cl cause)) = trace w @ evs
        \<and> createCalls evs = [(typeName, entityID, cause)]"
proof (cases "registeredEntityTypes w typeName")
  case None
  from createEntity_unregistered [OF None, of e space pos entityID data timerData cl cause]
  show ?thesis by (simp add: emit_def)
next
  case (Some desc)
  from createEntity_registered [OF Some, of e space pos entityID data timerData cl cause]
  obtain w' where r: "snd (createEntity e w typeName space pos entityID data timerData cl cause) = w'"
    and tr: "trace w' = trace w @
              (let eid = (if entityID = [] then GenEntityID e (generated w) else entityID) in
               [Call_createEntity typeName entityID cause,
                case data of Some d \<Rightarrow> if cause = ccCreate then LoadPersistentData eid d else LoadMigrateData eid d
                | None \<Rightarrow> Save eid]
               @ (case timerData of Some td \<Rightarrow> [restoreTimers eid td] | None \<Rightarrow> [])
               @ (if IsPersistent e typeName then [setupSaveTimer eid] else [])
               @ (if cause = ccCreate \<or> cause = ccRestore then [SendNotifyCreateEntity eid] else [])
               @ (case cl of Some c \<Rightarrow> if cause = ccCreate then [Call_SetClient eid (Some c)] else [] | None \<Rightarrow> [])
               @ [case cause of ccCreate \<Rightarrow> OnCreated eid | ccMigrate \<Rightarrow> OnMigrateIn eid | ccRestore \<Rightarrow> OnRestored eid]
               @ (case space of Some sp \<Rightarrow> [enter (SpaceEntityID sp) eid pos (cause = ccRestore)] | None \<Rightarrow> []))"
    by auto
  show ?thesis
    unfolding r tr Let_def
    by (rule exI, rule conjI, rule refl) (cases cause; simp split: option.splits)
qed

lemma createEntity_keeps_registry:
  "registeredEntityTypes (snd (createEntity e w typeName space pos entityID data timerData cl cause))
     = registeredEntityTypes w"
proof (cases "registeredEntityTypes w typeName")
  case None
  from createEntity_unregistered [OF None, of e space pos entityID data timerData cl cause]
  show ?thesis by (simp add: emit_def)
next
  case (Some desc)
  from createEntity_registered [OF Some, of e space pos entityID data timerData cl cause]
  show ?thesis by auto
qed

lemma recreate_calls:
  "\<exists>evs. trace (snd (recreate e eid info w)) = trace w @ evs
        \<and> createCalls evs = [(Type info, eid, ccRestore)]"
  unfolding recreate_def by (rule createEntity_calls)

lemma recreate_keeps_registry:
  "registeredEntityTypes (snd (recreate e eid info w)) = registeredEntityTypes w"
  unfolding recreate_def by (rule createEntity_keeps_registry)

lemma recreate_registered:
  assumes "registeredEntityTypes w (Type info) = Some desc"
  shows "\<exists>created. fst (recreate e eid info w) = Inr created"
  unfolding recreate_def
  using createEntity_registered [OF assms,
      of e "if Type info \<noteq> SPACE_ENTITY_TYPE then getSpace w (SpaceID info) else None" "Pos info" eid
         "Attrs info" "TimerData info"
         "case Client info of None \<Rightarrow> None | Some c \<Rightarrow> Some (MakeGameClient (ClientID c) (GateID c))"
         ccRestore]
  by (metis fst_conv)

lemma postEnterSpace_trace:
  "\<exists>evs. trace (postEnterSpace eid info w) = trace w @ evs \<and> createCalls evs = []"
  by (cases "ESR info") (simp_all add: postEnterSpace_def emit_def)

lemma postEnterSpace_keeps_registry:
  "registeredEntityTypes (postEnterSpace eid info w) = registeredEntityTypes w"
  by (cases "ESR info") (simp_all add: postEnterSpace_def emit_def)

text \<open>
  What one entry does to the trace: nothing when it is not selected or its kind cannot
  be converted, one call of \<open>createEntity\<close> with the cause Restore when it is.
\<close>

lemma restoreEntity_cases:
  obtains (skip) "restoreEntity e flt eid info w = (None, w)"
        "\<exists>k. spaceKindOf e info = Inr k \<and> \<not> flt (Type info) k"
  | (conv) p where "restoreEntity e flt eid info w = (Some p, w)" "spaceKindOf e info = Inl p"
  | (panic) p k where "restoreEntity e flt eid info w = (Some p, snd (recreate e eid info w))"
        "spaceKindOf e info = Inr k" "flt (Type info) k" "fst (recreate e eid info w) = Inl p"
  | (restored) k created where
        "restoreEntity e flt eid info w = (None, postEnterSpace eid info (snd (recreate e eid info w)))"
        "spaceKindOf e info = Inr k" "flt (Type info) k" "fst (recreate e eid info w) = Inr created"
proof (cases "spaceKindOf e info")
  case (Inl p)
  then have "restoreEntity e flt eid info w = (Some p, w)" by (simp add: restoreEntity_def)
  from this Inl show ?thesis by (rule conv)
next
  case (Inr k)
  show ?thesis
  proof (cases "flt (Type info) k")
    case False
    with Inr have "restoreEntity e flt eid info w = (None, w)" by (simp add: restoreEntity_def)
    moreover from Inr False have "\<exists>k. spaceKindOf e info = Inr k \<and> \<not> flt (Type info) k" by blast
    ultimately show ?thesis by (rule skip)
  next
    case True
    show ?thesis
    proof (cases "fst (recreate e eid info w)")
      case (Inl p)
      with Inr True have "restoreEntity e flt eid info w = (Some p, snd (recreate e eid info w))"
        by (cases "recreate e eid info w") (simp add: restoreEntity_def)
      from this Inr True Inl show ?thesis by (rule panic)
    next
      case (Inr created)
      with \<open>spaceKindOf e info = Inr k\<close> True
      have "restoreEntity e flt eid info w = (None, postEnterSpace eid info (snd (recreate e eid info w)))"
        by (cases "recreate e eid info w") (simp add: restoreEntity_def)
      from this \<open>spaceKindOf e info = Inr k\<close> True Inr show ?thesis by (rule restored)
    qed
  qed
qed

lemma restoreEntity_keeps_registry:
  "registeredEntityTypes (snd (restoreEntity e flt eid info w)) = registeredEntityTypes w"
  by (cases rule: restoreEntity_cases [where e=e and flt=flt and eid=eid and info=info and w=w])
     (simp_all add: recreate_keeps_registry postEnterSpace_keeps_registry)

lemma restoreEntity_calls:
  "\<exists>evs. trace (snd (restoreEntity e flt eid info w)) = trace w @ evs
         \<and> (createCalls evs = [] \<or> createCalls evs = [(Type info, eid, ccRestore)])"
proof (cases rule: restoreEntity_cases [where e=e and flt=flt and eid=eid and info=info and w=w])
  case skip
  then show ?thesis by simp
next
  case (conv p)
  then show ?thesis by simp
next
  case (panic p k)
  with recreate_calls [of e eid info w] show ?thesis by auto
next
  case (restored k created)
  from recreate_calls [of e eid info w]
  obtain evs where a: "trace (snd (recreate e eid info w)) = trace w @ evs"
    and b: "createCalls evs = [(Type info, eid, ccRestore)]" by blast
  from postEnterSpace_trace [of eid info "snd (recreate e eid info w)"]
  obtain evs' where c: "trace (postEnterSpace eid info (snd (recreate e eid info w)))
                          = trace (snd (recreate e eid info w)) @ evs'"
    and d: "createCalls evs' = []" by blast
  from a c have "trace (snd (restoreEntity e flt eid info w)) = trace w @ (evs @ evs')"
    using restored(1) by simp
  moreover from b d have "createCalls (evs @ evs') = [(Type info, eid, ccRestore)]"
    by (simp add: createCalls_append)
  ultimately show ?thesis by blast
qed

lemma restoreEntity_ok:
  assumes "registeredEntityTypes w (Type info) = Some desc" and "spaceKindOf e info = Inr k"
  shows "fst (restoreEntity e flt eid info w) = None
       \<and> (\<exists>evs. trace (snd (restoreEntity e flt eid info w)) = trace w @ evs
                 \<and> createCalls evs = (if flt (Type info) k then [(Type info, eid, ccRestore)] else []))"
proof (cases rule: restoreEntity_cases [where e=e and flt=flt and eid=eid and info=info and w=w])
  case skip
  with assms(2) show ?thesis by auto
next
  case (conv p)
  with assms(2) show ?thesis by simp
next
  case (panic p k')
  with recreate_registered [OF assms(1), of e eid] show ?thesis by simp
next
  case (restored k' created)
  from recreate_calls [of e eid info w]
  obtain evs where a: "trace (snd (recreate e eid info w)) = trace w @ evs"
    and b: "createCalls evs = [(Type info, eid, ccRestore)]" by blast
  from postEnterSpace_trace [of eid info "snd (recreate e eid info w)"]
  obtain evs' where c: "trace (postEnterSpace eid info (snd (recreate e eid info w)))
                          = trace (snd (recreate e eid info w)) @ evs'"
    and d: "createCalls evs' = []" by blast
  from a c have "trace (snd (restoreEntity e flt eid info w)) = trace w @ (evs @ evs')"
    using restored(1) by simp
  moreover from b d have "createCalls (evs @ evs') = [(Type info, eid, ccRestore)]"
    by (simp add: createCalls_append)
  moreover from restored assms(2) have "flt (Type info) k" by simp
  ultimately show ?thesis using restored(1) by auto
qed

lemma restoreEntities_keeps_registry:
  "registeredEntityTypes (snd (restoreEntities e flt freeze ord w)) = registeredEntityTypes w"
proof (induction ord arbitrary: w)
  case Nil
  then show ?case by simp
next
  case (Cons eid rest)
  show ?case
  proof (cases "Entities freeze eid")
    case None
    then show ?thesis by (simp add: Cons.IH)
  next
    case (Some info)
    obtain r w' where step: "restoreEntity e flt eid info w = (r, w')"
      by (cases "restoreEntity e flt eid info w")
    with restoreEntity_keeps_registry [of e flt eid info w]
    have "registeredEntityTypes w' = registeredEntityTypes w" by simp
    with Some step Cons.IH [of w'] show ?thesis by (cases r) simp_all
  qed
qed

text \<open>Every call of \<open>createEntity\<close> that a pass makes has the cause Restore.\<close>

lemma restoreEntities_calls:
  "\<exists>evs. trace (snd (restoreEntities e flt freeze ord w)) = trace w @ evs
         \<and> (\<forall>c \<in> set (createCalls evs). snd (snd c) = ccRestore)"
proof (induction ord arbitrary: w)
  case Nil
  then show ?case by simp
next
  case (Cons eid rest)
  show ?case
  proof (cases "Entities freeze eid")
    case None
    with Cons.IH [of w] show ?thesis by simp
  next
    case (Some info)
    obtain r w' where step: "restoreEntity e flt eid info w = (r, w')"
      by (cases "restoreEntity e flt eid info w")
    from restoreEntity_calls [of e flt eid info w] step
    obtain evs where a: "trace w' = trace w @ evs"
      and b: "\<forall>c \<in> set (createCalls evs). snd (snd c) = ccRestore" by auto
    show ?thesis
    proof (cases r)
      case (Some p)
      with \<open>Entities freeze eid = Some info\<close> step a b show ?thesis by auto
    next
      case None
      from Cons.IH [of w']
      obtain evs' where c: "trace (snd (restoreEntities e flt freeze rest w')) = trace w' @ evs'"
        and d: "\<forall>c \<in> set (createCalls evs'). snd (snd c) = ccRestore" by blast
      from a c None step \<open>Entities freeze eid = Some info\<close>
      have "trace (snd (restoreEntities e flt freeze (eid # rest) w)) = trace w @ (evs @ evs')"
        by simp
      moreover from b d have "\<forall>c \<in> set (createCalls (evs @ evs')). snd (snd c) = ccRestore"
        by (auto simp: createCalls_append)
      ultimately show ?thesis by blast
    qed
  qed
qed

text \<open>
  A pass over entries whose types are registered and whose kinds convert returns and
  makes exactly the calls of its phase.
\<close>

lemma restoreEntities_ok:
  assumes "\<forall>eid \<in> set ord. \<forall>info. Entities freeze eid = Some info
             \<longrightarrow> registeredEntityTypes w (Type info) \<noteq> None \<and> (\<exists>k. spaceKindOf e info = Inr k)"
  shows "fst (restoreEntities e flt freeze ord w) = None
       \<and> (\<exists>evs. trace (snd (restoreEntities e flt freeze ord w)) = trace w @ evs
                 \<and> createCalls evs = phaseCalls e flt freeze ord)"
  using assms
proof (induction ord arbitrary: w)
  case Nil
  then show ?case by (simp add: phaseCalls_def)
next
  case (Cons eid rest)
  show ?case
  proof (cases "Entities freeze eid")
    case None
    from Cons.prems have "\<forall>eid \<in> set rest. \<forall>info. Entities freeze eid = Some info
             \<longrightarrow> registeredEntityTypes w (Type info) \<noteq> None \<and> (\<exists>k. spaceKindOf e info = Inr k)"
      by simp
    from Cons.IH [OF this] None show ?thesis by (simp add: phaseCalls_def)
  next
    case (Some info)
    with Cons.prems obtain desc k where reg: "registeredEntityTypes w (Type info) = Some desc"
      and kind: "spaceKindOf e info = Inr k" by auto
    obtain r w' where step: "restoreEntity e flt eid info w = (r, w')"
      by (cases "restoreEntity e flt eid info w")
    from restoreEntity_ok [OF reg kind, of flt eid] step
    obtain evs where r: "r = None" and a: "trace w' = trace w @ evs"
      and b: "createCalls evs = (if flt (Type info) k then [(Type info, eid, ccRestore)] else [])"
      by auto
    from restoreEntity_keeps_registry [of e flt eid info w] step
    have "registeredEntityTypes w' = registeredEntityTypes w" by simp
    with Cons.prems have "\<forall>eid \<in> set rest. \<forall>info. Entities freeze eid = Some info
             \<longrightarrow> registeredEntityTypes w' (Type info) \<noteq> None \<and> (\<exists>k. spaceKindOf e info = Inr k)"
      by simp
    from Cons.IH [OF this]
    obtain evs' where c: "fst (restoreEntities e flt freeze rest w') = None"
      and d: "trace (snd (restoreEntities e flt freeze rest w')) = trace w' @ evs'"
      and f: "createCalls evs' = phaseCalls e flt freeze rest" by blast
    from Some step r c have "fst (restoreEntities e flt freeze (eid # rest) w) = None" by simp
    moreover from Some step r a d
    have "trace (snd (restoreEntities e flt freeze (eid # rest) w)) = trace w @ (evs @ evs')" by simp
    moreover from b f Some kind
    have "createCalls (evs @ evs') = phaseCalls e flt freeze (eid # rest)"
      by (simp add: createCalls_append phaseCalls_def)
    ultimately show ?thesis by blast
  qed
qed

lemma newEvents_append: "trace w' = trace w @ evs \<Longrightarrow> newEvents w w' = evs"
  by (simp add: newEvents_def)

lemma restoreBody_calls:
  "\<exists>evs. trace (snd (restoreBody e freeze ord1 ord2 ord3 svcOrd w)) = trace w @ evs
         \<and> (\<forall>c \<in> set (createCalls evs). snd (snd c) = ccRestore)"
proof -
  obtain r1 w1 where p1: "restoreEntities e isNilSpaceEntry freeze ord1 w = (r1, w1)"
    by (cases "restoreEntities e isNilSpaceEntry freeze ord1 w")
  obtain r2 w2 where p2: "restoreEntities e isOtherSpaceEntry freeze ord2 w1 = (r2, w2)"
    by (cases "restoreEntities e isOtherSpaceEntry freeze ord2 w1")
  obtain r3 w3 where p3: "restoreEntities e isNonSpaceEntry freeze ord3 w2 = (r3, w3)"
    by (cases "restoreEntities e isNonSpaceEntry freeze ord3 w2")
  from restoreEntities_calls [of e isNilSpaceEntry freeze ord1 w] p1
  obtain evs1 where a1: "trace w1 = trace w @ evs1"
    and b1: "\<forall>c \<in> set (createCalls evs1). snd (snd c) = ccRestore" by auto
  from restoreEntities_calls [of e isOtherSpaceEntry freeze ord2 w1] p2
  obtain evs2 where a2: "trace w2 = trace w1 @ evs2"
    and b2: "\<forall>c \<in> set (createCalls evs2). snd (snd c) = ccRestore" by auto
  from restoreEntities_calls [of e isNonSpaceEntry freeze ord3 w2] p3
  obtain evs3 where a3: "trace w3 = trace w2 @ evs3"
    and b3: "\<forall>c \<in> set (createCalls evs3). snd (snd c) = ccRestore" by auto
  have c12: "\<forall>c \<in> set (createCalls (evs1 @ evs2)). snd (snd c) = ccRestore"
    using b1 b2 by (auto simp: createCalls_append)
  have c123: "\<forall>c \<in> set (createCalls (evs1 @ evs2 @ evs3)). snd (snd c) = ccRestore"
    using b1 b2 b3 by (auto simp: createCalls_append)
  show ?thesis
  proof (cases r1)
    case (Some p)
    with p1 a1 b1 show ?thesis by (auto simp: restoreBody_def)
  next
    case None
    note n1 = this
    show ?thesis
    proof (cases r2)
      case (Some p)
      with n1 p1 p2 a1 a2 have "trace (snd (restoreBody e freeze ord1 ord2 ord3 svcOrd w)) = trace w @ (evs1 @ evs2)"
        by (simp add: restoreBody_def)
      with c12 show ?thesis by blast
    next
      case None
      note n2 = this
      from n1 n2 p1 p2 p3 a1 a2 a3
      have "trace (snd (restoreBody e freeze ord1 ord2 ord3 svcOrd w)) = trace w @ (evs1 @ evs2 @ evs3)"
        by (cases r3) (simp_all add: restoreBody_def)
      with c123 show ?thesis by blast
    qed
  qed
qed

lemma restoreBody_ok:
  assumes "\<forall>eid info. Entities freeze eid = Some info
             \<longrightarrow> registeredEntityTypes w (Type info) \<noteq> None \<and> (\<exists>k. spaceKindOf e info = Inr k)"
  shows "fst (restoreBody e freeze ord1 ord2 ord3 svcOrd w) = None
       \<and> (\<exists>evs. trace (snd (restoreBody e freeze ord1 ord2 ord3 svcOrd w)) = trace w @ evs
                 \<and> createCalls evs = phaseCalls e isNilSpaceEntry freeze ord1
                                       @ phaseCalls e isOtherSpaceEntry freeze ord2
                                       @ phaseCalls e isNonSpaceEntry freeze ord3)"
proof -
  obtain r1 w1 where p1: "restoreEntities e isNilSpaceEntry freeze ord1 w = (r1, w1)"
    by (cases "restoreEntities e isNilSpaceEntry freeze ord1 w")
  obtain r2 w2 where p2: "restoreEntities e isOtherSpaceEntry freeze ord2 w1 = (r2, w2)"
    by (cases "restoreEntities e isOtherSpaceEntry freeze ord2 w1")
  obtain r3 w3 where p3: "restoreEntities e isNonSpaceEntry freeze ord3 w2 = (r3, w3)"
    by (cases "restoreEntities e isNonSpaceEntry freeze ord3 w2")
  have reg1: "registeredEntityTypes w1 = registeredEntityTypes w"
    using restoreEntities_keeps_registry [of e isNilSpaceEntry freeze ord1 w] p1 by simp
  have reg2: "registeredEntityTypes w2 = registeredEntityTypes w"
    using restoreEntities_keeps_registry [of e isOtherSpaceEntry freeze ord2 w1] p2 reg1 by simp
  have h0: "\<forall>eid \<in> set ord1. \<forall>info. Entities freeze eid = Some info
             \<longrightarrow> registeredEntityTypes w (Type info) \<noteq> None \<and> (\<exists>k. spaceKindOf e info = Inr k)"
    using assms by blast
  have h1: "\<forall>eid \<in> set ord2. \<forall>info. Entities freeze eid = Some info
             \<longrightarrow> registeredEntityTypes w1 (Type info) \<noteq> None \<and> (\<exists>k. spaceKindOf e info = Inr k)"
    using assms reg1 by simp
  have h2: "\<forall>eid \<in> set ord3. \<forall>info. Entities freeze eid = Some info
             \<longrightarrow> registeredEntityTypes w2 (Type info) \<noteq> None \<and> (\<exists>k. spaceKindOf e info = Inr k)"
    using assms reg2 by simp
  from restoreEntities_ok [OF h0, of isNilSpaceEntry] p1
  obtain evs1 where r1: "r1 = None" and a1: "trace w1 = trace w @ evs1"
    and b1: "createCalls evs1 = phaseCalls e isNilSpaceEntry freeze ord1" by auto
  from restoreEntities_ok [OF h1, of isOtherSpaceEntry] p2
  obtain evs2 where r2: "r2 = None" and a2: "trace w2 = trace w1 @ evs2"
    and b2: "createCalls evs2 = phaseCalls e isOtherSpaceEntry freeze ord2" by auto
  from restoreEntities_ok [OF h2, of isNonSpaceEntry] p3
  obtain evs3 where r3: "r3 = None" and a3: "trace w3 = trace w2 @ evs3"
    and b3: "createCalls evs3 = phaseCalls e isNonSpaceEntry freeze ord3" by auto
  from p1 p2 p3 r1 r2 r3
  have body: "restoreBody e freeze ord1 ord2 ord3 svcOrd w
                = (None, w3\<lparr>entityManager := restoreServices freeze svcOrd (entityManager w3)\<rparr>)"
    by (simp add: restoreBody_def)
  from body a1 a2 a3
  have "trace (snd (restoreBody e freeze ord1 ord2 ord3 svcOrd w)) = trace w @ (evs1 @ evs2 @ evs3)"
    by simp
  moreover from b1 b2 b3
  have "createCalls (evs1 @ evs2 @ evs3) = phaseCalls e isNilSpaceEntry freeze ord1
                                       @ phaseCalls e isOtherSpaceEntry freeze ord2
                                       @ phaseCalls e isNonSpaceEntry freeze ord3"
    by (simp add: createCalls_append)
  ultimately show ?thesis using body by auto
qed

lemma RestoreFreezedEntities_trace:
  "trace (snd (RestoreFreezedEntities e freeze ord1 ord2 ord3 svcOrd w))
     = trace (snd (restoreBody e freeze ord1 ord2 ord3 svcOrd w))"
  by (cases "restoreBody e freeze ord1 ord2 ord3 svcOrd w")
     (auto simp: RestoreFreezedEntities_def split: option.splits)

text \<open>The entries that each phase selects, in the words of the claim.\<close>

lemma phaseCalls_iff:
  "(t, eid, c) \<in> set (phaseCalls e cond freeze ord) \<longleftrightarrow>
     eid \<in> set ord \<and> c = ccRestore
     \<and> (\<exists>info k. Entities freeze eid = Some info \<and> Type info = t
                   \<and> spaceKindOf e info = Inr k \<and> cond t k)"
  by (auto simp: phaseCalls_def split: option.splits sum.splits if_splits) metis+

text \<open>
  Claim C1. When every type of the snapshot is registered and every kind attribute
  converts, \<open>RestoreFreezedEntities\<close> returns \<open>nil\<close> and its calls of
  \<open>createEntity\<close> are, in this order: the entities with the space type and kind 0, in
  the order of the first pass; the entities with the space type and another kind, in
  the order of the second pass; the entities of any other type, in the order of the
  third pass; each with the cause Restore. Whatever the snapshot, also when a phase
  panics, every call of \<open>createEntity\<close> that was made has the cause Restore.
\<close>

theorem RestoreFreezedEntities_three_phases:
  "((\<forall>eid info. Entities freeze eid = Some info
        \<longrightarrow> registeredEntityTypes w (Type info) \<noteq> None \<and> (\<exists>k. spaceKindOf e info = Inr k))
      \<longrightarrow> (\<exists>w'. RestoreFreezedEntities e freeze ord1 ord2 ord3 svcOrd w = (Inr None, w')
             \<and> createCalls (newEvents w w')
                 = phaseCalls e isNilSpaceEntry freeze ord1
                   @ phaseCalls e isOtherSpaceEntry freeze ord2
                   @ phaseCalls e isNonSpaceEntry freeze ord3))
   \<and> (\<forall>c \<in> set (createCalls (newEvents w (snd (RestoreFreezedEntities e freeze ord1 ord2 ord3 svcOrd w)))).
          snd (snd c) = ccRestore)"
proof (intro conjI impI)
  assume h: "\<forall>eid info. Entities freeze eid = Some info
        \<longrightarrow> registeredEntityTypes w (Type info) \<noteq> None \<and> (\<exists>k. spaceKindOf e info = Inr k)"
  obtain r w' where b: "restoreBody e freeze ord1 ord2 ord3 svcOrd w = (r, w')"
    by (cases "restoreBody e freeze ord1 ord2 ord3 svcOrd w")
  from restoreBody_ok [OF h, of ord1 ord2 ord3 svcOrd] b
  obtain evs where r: "r = None" and tr: "trace w' = trace w @ evs"
    and calls: "createCalls evs = phaseCalls e isNilSpaceEntry freeze ord1
                   @ phaseCalls e isOtherSpaceEntry freeze ord2
                   @ phaseCalls e isNonSpaceEntry freeze ord3"
    by auto
  from b r have "RestoreFreezedEntities e freeze ord1 ord2 ord3 svcOrd w = (Inr None, w')"
    by (simp add: RestoreFreezedEntities_def)
  moreover from tr calls have "createCalls (newEvents w w')
                 = phaseCalls e isNilSpaceEntry freeze ord1
                   @ phaseCalls e isOtherSpaceEntry freeze ord2
                   @ phaseCalls e isNonSpaceEntry freeze ord3"
    by (simp add: newEvents_append)
  ultimately show "\<exists>w'. RestoreFreezedEntities e freeze ord1 ord2 ord3 svcOrd w = (Inr None, w')
             \<and> createCalls (newEvents w w')
                 = phaseCalls e isNilSpaceEntry freeze ord1
                   @ phaseCalls e isOtherSpaceEntry freeze ord2
                   @ phaseCalls e isNonSpaceEntry freeze ord3"
    by blast
next
  from restoreBody_calls [of e freeze ord1 ord2 ord3 svcOrd w]
  obtain evs where tr: "trace (snd (restoreBody e freeze ord1 ord2 ord3 svcOrd w)) = trace w @ evs"
    and c: "\<forall>c \<in> set (createCalls evs). snd (snd c) = ccRestore" by blast
  from tr have "newEvents w (snd (RestoreFreezedEntities e freeze ord1 ord2 ord3 svcOrd w)) = evs"
    by (simp add: newEvents_def RestoreFreezedEntities_trace)
  with c show "\<forall>c \<in> set (createCalls (newEvents w (snd (RestoreFreezedEntities e freeze ord1 ord2 ord3 svcOrd w)))).
          snd (snd c) = ccRestore"
    by simp
qed

lemma sampleFreeze_kinds:
  "spaceKindOf sampleEnv nilSpaceInfo = Inr 0"
  "spaceKindOf sampleEnv spaceInfo = Inr 1"
  "spaceKindOf sampleEnv playerInfo = Inr 0"
  by (simp_all add: spaceKindOf_def sampleEnv_def nilSpaceInfo_def spaceInfo_def playerInfo_def
        SPACE_ENTITY_TYPE_def SPACE_KIND_ATTR_KEY_def)

lemma sampleFreeze_phases:
  "phaseCalls sampleEnv isNilSpaceEntry sampleFreeze [''P'', ''S'', ''N''] = [(''__space__'', ''N'', ccRestore)]"
  "phaseCalls sampleEnv isOtherSpaceEntry sampleFreeze [''S'', ''N'', ''P''] = [(''__space__'', ''S'', ccRestore)]"
  "phaseCalls sampleEnv isNonSpaceEntry sampleFreeze [''N'', ''P'', ''S''] = [(''Player'', ''P'', ccRestore)]"
  by (simp_all add: phaseCalls_def sampleFreeze_def sampleFreeze_kinds isNilSpaceEntry_def
        isOtherSpaceEntry_def isNonSpaceEntry_def SPACE_ENTITY_TYPE_def)
     (simp_all add: nilSpaceInfo_def spaceInfo_def playerInfo_def)

theorem RestoreFreezedEntities_three_phases_witness:
  "\<exists>w'. RestoreFreezedEntities sampleEnv sampleFreeze [''P'', ''S'', ''N''] [''S'', ''N'', ''P'']
             [''N'', ''P'', ''S''] [''match''] sampleWorld = (Inr None, w')
        \<and> createCalls (newEvents sampleWorld w')
            = [(''__space__'', ''N'', ccRestore), (''__space__'', ''S'', ccRestore), (''Player'', ''P'', ccRestore)]"
proof -
  have h: "\<forall>eid info. Entities sampleFreeze eid = Some info
        \<longrightarrow> registeredEntityTypes sampleWorld (Type info) \<noteq> None
            \<and> (\<exists>k. spaceKindOf sampleEnv info = Inr k)"
    by (auto simp: sampleFreeze_def sampleFreeze_kinds split: if_splits)
       (simp_all add: sampleWorld_def nilSpaceInfo_def spaceInfo_def playerInfo_def)
  from RestoreFreezedEntities_three_phases
         [of sampleFreeze sampleWorld sampleEnv "[''P'', ''S'', ''N'']" "[''S'', ''N'', ''P'']"
             "[''N'', ''P'', ''S'']" "[''match'']"] h
  show ?thesis by (simp add: sampleFreeze_phases)
qed

subsection \<open>The ownership index\<close>

lemma consistent_newEntityManager: "consistent newEntityManager"
  by (simp add: consistent_def newEntityManager_def)

lemma unowned_fresh:
  "consistent em \<Longrightarrow> entities em eid = None \<Longrightarrow> unowned em eid"
  by (fastforce simp: consistent_def unowned_def)

lemma consistent_put_fresh:
  "consistent em \<Longrightarrow> entities em (ID entity) = None \<Longrightarrow> consistent (put em entity)"
  unfolding consistent_def put_def by (auto split: if_splits) fastforce+

lemma unowned_put: "unowned em eid \<Longrightarrow> unowned (put em entity) eid"
  by (simp add: unowned_def put_def)

lemma consistent_lose: "consistent em \<Longrightarrow> consistent (onEntityLoseClient em cid)"
  unfolding consistent_def onEntityLoseClient_def by (auto split: if_splits)

lemma entities_lose [simp]: "entities (onEntityLoseClient em cid) = entities em"
  by (simp add: onEntityLoseClient_def)

lemma unowned_lose:
  assumes "consistent em" and "entities em eid = Some entity"
  shows "unowned (case client entity of Some old \<Rightarrow> onEntityLoseClient em (clientid old) | None \<Rightarrow> em) eid"
proof (cases "client entity")
  case None
  with assms show ?thesis by (fastforce simp: consistent_def unowned_def)
next
  case (Some old)
  with assms show ?thesis
    by (fastforce simp: consistent_def unowned_def onEntityLoseClient_def split: if_splits)
qed

lemma consistent_lose_client:
  "consistent em \<Longrightarrow>
   consistent (case client entity of Some old \<Rightarrow> onEntityLoseClient em (clientid old) | None \<Rightarrow> em)"
  by (cases "client entity") (simp_all add: consistent_lose)

lemma consistent_setClientField:
  assumes "consistent em" and "unowned em eid"
  shows "consistent (setClientField em eid cl)"
proof (cases "entities em eid")
  case None
  with assms show ?thesis by (simp add: setClientField_def)
next
  case (Some entity)
  with assms show ?thesis
    unfolding consistent_def unowned_def setClientField_def
    by (auto split: if_splits)
qed

lemma unowned_setClientField: "unowned em eid \<Longrightarrow> unowned (setClientField em eid cl) eid"
  by (simp add: unowned_def setClientField_def split: option.splits)

lemma consistent_bind:
  assumes "consistent em" and "unowned em eid" and "entities em eid = Some entity"
  shows "consistent (onEntityGetClient (setClientField em eid (Some c)) eid (clientid c))"
  using assms
  unfolding consistent_def unowned_def setClientField_def onEntityGetClient_def
  by (auto split: if_splits)

lemma consistent_rebind: "consistent em \<Longrightarrow> consistent (rebind em eid cl)"
proof (cases "entities em eid")
  case None
  assume "consistent em"
  with None show ?thesis by (simp add: rebind_def)
next
  case (Some entity)
  assume c: "consistent em"
  let ?em1 = "case client entity of Some old \<Rightarrow> onEntityLoseClient em (clientid old) | None \<Rightarrow> em"
  have c1: "consistent ?em1" using c by (rule consistent_lose_client)
  have u1: "unowned ?em1 eid" using c Some by (rule unowned_lose)
  have e1: "entities ?em1 eid = Some entity" using Some by (cases "client entity") simp_all
  show ?thesis
  proof (cases cl)
    case None
    with Some consistent_setClientField [OF c1 u1, of None] show ?thesis by (simp add: rebind_def)
  next
    case (Some c')
    with \<open>entities em eid = Some entity\<close> consistent_bind [OF c1 u1 e1, of c'] show ?thesis
      by (simp add: rebind_def)
  qed
qed

lemma unowned_rebind_None:
  assumes "consistent em" and "entities em eid = Some entity"
  shows "unowned (rebind em eid None) eid"
  using assms unowned_setClientField [OF unowned_lose [OF assms], of None]
  by (simp add: rebind_def)

lemma consistent_del: "consistent em \<Longrightarrow> unowned em eid \<Longrightarrow> consistent (del em eid)"
  unfolding consistent_def unowned_def del_def by (auto split: if_splits)

lemma consistent_services:
  "consistent (em\<lparr>registeredServices := services\<rparr>) = consistent em"
  by (simp add: consistent_def)

lemma unowned_services:
  "unowned (em\<lparr>registeredServices := services\<rparr>) eid = unowned em eid"
  by (simp add: unowned_def)

text \<open>What \<open>createEntity\<close> does to the entity manager.\<close>

lemma createEntity_entityManager:
  "entityManager (snd (createEntity e w typeName space pos entityID data timerData cl cause)) =
     (case registeredEntityTypes w typeName of
        None \<Rightarrow> entityManager w
      | Some desc \<Rightarrow>
          (case cl of
             None \<Rightarrow> put (entityManager w) (newEntity typeName (createdID e w entityID))
           | Some c \<Rightarrow>
               if cause = ccCreate
               then rebind (put (entityManager w) (newEntity typeName (createdID e w entityID)))
                      (createdID e w entityID) (Some c)
               else onEntityGetClient
                      (setClientField (put (entityManager w) (newEntity typeName (createdID e w entityID)))
                         (createdID e w entityID) (Some c))
                      (createdID e w entityID) (clientid c)))"
proof (cases "registeredEntityTypes w typeName")
  case None
  from createEntity_unregistered [OF None, of e space pos entityID data timerData cl cause]
  show ?thesis using None by (simp add: emit_def)
next
  case (Some desc)
  have reg: "registeredEntityTypes (emit (Call_createEntity typeName entityID cause) w) typeName = Some desc"
    using Some by (simp add: emit_def)
  have gen: "generated (emit (Call_createEntity typeName entityID cause) w) = generated w"
    by (simp add: emit_def)
  show ?thesis
    unfolding createEntity_def Let_def
    apply (simp only: reg option.case gen Some)
    apply (cases cause)
      apply (simp_all add: createdID_def loadData_def loadTimers_def startSaveTimer_def notifyCreate_def
               bindClient_def runCallback_def enterSpace_def SetClient_def assignClient_def emit_def
             split: option.splits)
    done
qed

lemma consistent_createEntity:
  assumes "consistent (entityManager w)"
    and "entities (entityManager w) (createdID e w entityID) = None"
  shows "consistent (entityManager (snd (createEntity e w typeName space pos entityID data timerData cl cause)))"
proof (cases "registeredEntityTypes w typeName")
  case None
  with assms(1) show ?thesis by (simp add: createEntity_entityManager)
next
  case (Some desc)
  let ?eid = "createdID e w entityID"
  let ?em1 = "put (entityManager w) (newEntity typeName ?eid)"
  have id: "ID (newEntity typeName ?eid) = ?eid" by (simp add: newEntity_def)
  have c1: "consistent ?em1"
    using assms id by (intro consistent_put_fresh) simp_all
  have u1: "unowned ?em1 ?eid"
    using unowned_fresh [OF assms] by (rule unowned_put)
  have e1: "entities ?em1 ?eid = Some (newEntity typeName ?eid)"
    by (simp add: put_def id)
  show ?thesis
  proof (cases cl)
    case None
    with Some c1 show ?thesis by (simp add: createEntity_entityManager)
  next
    case (Some c)
    with \<open>registeredEntityTypes w typeName = Some desc\<close> c1 consistent_rebind [OF c1, of ?eid "Some c"]
      consistent_bind [OF c1 u1 e1, of c]
    show ?thesis by (simp add: createEntity_entityManager)
  qed
qed

lemma consistent_SetClient:
  "consistent (entityManager w) \<Longrightarrow> consistent (entityManager (SetClient w eid cl))"
  by (simp add: SetClient_def consistent_rebind)

lemma consistent_Destroy:
  assumes "consistent (entityManager w)"
  shows "consistent (entityManager (Destroy w eid))"
proof (cases "entities (entityManager w) eid")
  case None
  with assms show ?thesis by (simp add: Destroy_def)
next
  case (Some entity)
  with assms have id: "ID entity = eid" by (simp add: consistent_def)
  have "consistent (rebind (entityManager w) eid None)" using assms by (rule consistent_rebind)
  moreover have "unowned (rebind (entityManager w) eid None) eid"
    using assms Some by (rule unowned_rebind_None)
  ultimately have "consistent (del ((rebind (entityManager w) eid None)
                      \<lparr>registeredServices :=
                         (\<lambda>serviceName. map_option (\<lambda>eids. eids - {eid})
                                           (registeredServices (entityManager w) serviceName))\<rparr>) eid)"
    by (intro consistent_del) (simp_all add: consistent_services unowned_services)
  with Some id show ?thesis by (simp add: Destroy_def)
qed

lemma consistent_disconnect_step:
  assumes "consistent em" and "entities em eid = Some entity" and "client entity = Some cl"
  shows "consistent (setClientField (onEntityLoseClient em (clientid cl)) eid None)"
proof -
  have "consistent (onEntityLoseClient em (clientid cl))"
    using assms(1) by (rule consistent_lose)
  moreover have "unowned (onEntityLoseClient em (clientid cl)) eid"
    using unowned_lose [OF assms(1,2)] assms(3) by simp
  ultimately show ?thesis by (rule consistent_setClientField)
qed

lemma owner_resident:
  "consistent em \<Longrightarrow> ownerOfClient em cid = Some eid \<Longrightarrow>
   \<exists>entity cl. entities em eid = Some entity \<and> client entity = Some cl \<and> clientid cl = cid"
  by (simp add: consistent_def)

text \<open>In a consistent state \<open>onClientDisconnected\<close> finds the owner it looks up.\<close>

lemma onClientDisconnected_consistent:
  assumes "consistent (entityManager w)"
  shows "fst (onClientDisconnected w cid) = Inr ()
       \<and> consistent (entityManager (snd (onClientDisconnected w cid)))"
proof (cases "ownerOfClient (entityManager w) cid")
  case None
  with assms show ?thesis by (simp add: onClientDisconnected_def IsNil_def)
next
  case (Some eid)
  from owner_resident [OF assms Some]
  obtain entity cl where ent: "entities (entityManager w) eid = Some entity"
    and cl: "client entity = Some cl" "clientid cl = cid" by blast
  show ?thesis
  proof (cases "IsNil eid")
    case True
    with Some assms show ?thesis by (simp add: onClientDisconnected_def)
  next
    case False
    from consistent_disconnect_step [OF assms ent cl(1)] cl(2)
    have "consistent (setClientField (onEntityLoseClient (entityManager w) cid) eid None)" by simp
    with Some False ent show ?thesis
      by (simp add: onClientDisconnected_def get_def deliverDisconnected_def emit_def)
  qed
qed

lemma consistent_onGateDisconnected:
  "consistent (entityManager w) \<Longrightarrow> consistent (entityManager (onGateDisconnected w gid ord))"
proof (induction ord arbitrary: w)
  case Nil
  then show ?case by simp
next
  case (Cons key rest)
  show ?case
  proof (cases "entities (entityManager w) key")
    case None
    with Cons show ?thesis by simp
  next
    case (Some entity)
    show ?thesis
    proof (cases "client entity")
      case None
      with Some Cons show ?thesis by simp
    next
      case (Some cl)
      show ?thesis
      proof (cases "gateid cl = gid")
        case False
        with Some \<open>entities (entityManager w) key = Some entity\<close> Cons show ?thesis by simp
      next
        case True
        let ?w' = "deliverDisconnected
                     (w\<lparr>entityManager := onEntityLoseClient (entityManager w) (clientid cl)\<rparr>) key"
        from consistent_disconnect_step [OF Cons.prems \<open>entities (entityManager w) key = Some entity\<close> Some]
        have "consistent (entityManager ?w')"
          by (simp add: deliverDisconnected_def emit_def)
        from Cons.IH [OF this] True Some \<open>entities (entityManager w) key = Some entity\<close>
        show ?thesis by simp
      qed
    qed
  qed
qed

lemma consistent_applyOp:
  assumes "consistent (entityManager w)" and "freshCreate e w x"
  shows "consistent (entityManager (applyOp e w x))"
proof (cases x)
  case (Create typeName space pos entityID data timerData cl cause)
  with assms show ?thesis by (simp add: consistent_createEntity)
next
  case (Bind eid cl)
  with assms show ?thesis by (simp add: consistent_SetClient)
next
  case (Remove eid)
  with assms show ?thesis by (simp add: consistent_Destroy)
next
  case (ClientDisconnected cid)
  with assms onClientDisconnected_consistent [of w cid] show ?thesis by simp
next
  case (GateDisconnected gid ord)
  with assms show ?thesis by (simp add: consistent_onGateDisconnected)
qed

lemma consistent_run:
  "consistent (entityManager w0) \<Longrightarrow> run e w0 ops = Some w \<Longrightarrow> consistent (entityManager w)"
proof (induction ops arbitrary: w0)
  case Nil
  then show ?case by simp
next
  case (Cons x xs)
  from Cons.prems(2) have f: "freshCreate e w0 x" and r: "run e (applyOp e w0 x) xs = Some w"
    by (simp_all split: if_splits)
  from consistent_applyOp [OF Cons.prems(1) f] r show ?case by (rule Cons.IH)
qed

text \<open>
  Claim C10, as stated, fails. In the run \<open>danglingRun\<close> an entity \<open>E\<close> is created
  and bound to the client \<open>c1\<close>, \<open>createEntity\<close> is called again for the id \<open>E\<close> (as
  a second load of the same id does), which replaces the entity in the table by a new
  one without a client, and the new entity is destroyed. The ownership index then still
  maps \<open>c1\<close> to \<open>E\<close>, \<open>E\<close> is not resident, and \<open>onClientDisconnected\<close> faults on
  the owner it looks up.
\<close>

theorem ownerOfClient_dangling:
  "ownerOfClient (entityManager (foldl (applyOp sampleEnv) sampleWorld danglingRun)) ''c1'' = Some ''E''
   \<and> entities (entityManager (foldl (applyOp sampleEnv) sampleWorld danglingRun)) ''E'' = None
   \<and> fst (onClientDisconnected (foldl (applyOp sampleEnv) sampleWorld danglingRun) ''c1'')
       = Inl (ErrorValue ''invalid memory address or nil pointer dereference'')"
proof -
  have a: "ownerOfClient (entityManager (foldl (applyOp sampleEnv) sampleWorld danglingRun)) ''c1'' = Some ''E''"
    by code_simp
  have b: "entities (entityManager (foldl (applyOp sampleEnv) sampleWorld danglingRun)) ''E'' = None"
    by code_simp
  have c: "fst (onClientDisconnected (foldl (applyOp sampleEnv) sampleWorld danglingRun) ''c1'')
       = Inl (ErrorValue ''invalid memory address or nil pointer dereference'')"
    by code_simp
  from a b c show ?thesis by blast
qed

text \<open>
  Claim C10, amended. Start from a state in which the table is keyed by entity id and
  every client id of the index maps to a resident entity whose client it is (the new
  entity manager is such a state). After any run of \<open>createEntity\<close> calls, client
  binds, destructions, client disconnects and gate disconnects in which no
  \<open>createEntity\<close> is given the id of a resident entity, the state is of that kind
  again: every client id of the index maps to a resident entity, and in it
  \<open>onClientDisconnected\<close> finds the owner it looks up, for every client id.
\<close>

theorem ownerOfClient_resident:
  assumes "consistent (entityManager w0)" and "run e w0 ops = Some w"
  shows "consistent (entityManager w)
       \<and> (\<forall>cid eid. ownerOfClient (entityManager w) cid = Some eid
             \<longrightarrow> eid \<in> dom (entities (entityManager w)))
       \<and> (\<forall>cid. fst (onClientDisconnected w cid) = Inr ())"
proof -
  from assms have c: "consistent (entityManager w)" by (rule consistent_run)
  moreover from c have "\<forall>cid eid. ownerOfClient (entityManager w) cid = Some eid
             \<longrightarrow> eid \<in> dom (entities (entityManager w))"
    by (fastforce simp: consistent_def)
  moreover from c have "\<forall>cid. fst (onClientDisconnected w cid) = Inr ()"
    using onClientDisconnected_consistent by blast
  ultimately show ?thesis by blast
qed

theorem ownerOfClient_resident_witness:
  "consistent (entityManager sampleWorld)
   \<and> run sampleEnv sampleWorld boundRun = Some (foldl (applyOp sampleEnv) sampleWorld boundRun)
   \<and> ownerOfClient (entityManager (foldl (applyOp sampleEnv) sampleWorld boundRun)) ''c1'' = Some ''E''
   \<and> ''E'' \<in> dom (entities (entityManager (foldl (applyOp sampleEnv) sampleWorld boundRun)))
   \<and> fst (onClientDisconnected (foldl (applyOp sampleEnv) sampleWorld boundRun) ''c1'') = Inr ()"
proof -
  let ?w = "foldl (applyOp sampleEnv) sampleWorld boundRun"
  have c0: "consistent (entityManager sampleWorld)"
    by (simp add: sampleWorld_def consistent_newEntityManager)
  have f: "entities (entityManager sampleWorld) (createdID sampleEnv sampleWorld ''E'') = None"
    by (simp add: sampleWorld_def newEntityManager_def)
  have r: "run sampleEnv sampleWorld boundRun = Some ?w"
    by (simp add: boundRun_def f)
  have o: "ownerOfClient (entityManager ?w) ''c1'' = Some ''E''"
    by code_simp
  from ownerOfClient_resident [OF c0 r] c0 r o show ?thesis by blast
qed

end
